theory Spec2Isabelle
  imports
    Main
    "HOL-Library.Multiset"
    "HOL-Library.Char_ord"
    "HOL-Library.List_Lexorder"
    "HOL-Library.Sublist"
begin

section \<open>A shallow embedding of \<open>src/script.js\<close>\<close>

text \<open>
  The blog manager keeps an array of \<open>Blog\<close> objects, sorts it by \<open>updatedDate\<close> and
  writes it as JSON to \<open>localStorage\<close> under the key \<open>blogs\<close>. The embedding follows the
  classes \<open>Blog\<close> and \<open>BlogManager\<close> method by method.

  \<^item> A \<open>Date\<close> is its time value: an \<open>int\<close>, milliseconds since the epoch.
  \<^item> The clock is an input: every \<open>new Date()\<close> and every \<open>Date.now()\<close> of the source is
    one clock reading, passed as an argument in the order in which the source reads the clock.
  \<^item> A string is a \<open>string\<close>; its characters stand for the code units that JavaScript
    compares, and the order on strings is the lexicographic order of the code units.
  \<^item> \<open>localStorage\<close> is a map from keys to stored texts together with the number of
    \<open>setItem\<close> calls made so far. A stored text is represented by the JSON value it denotes
    (\<open>JSON.parse\<close> of the text \<open>JSON.stringify\<close> writes); the timestamps inside it are
    the ISO strings that \<open>Date.prototype.toJSON\<close> produces, character by character.
    \<open>setItem\<close> always succeeds: the quota of the store is not modelled.
\<close>

subsection \<open>Time values and the ISO format of \<open>Date\<close>\<close>

definition msPerDay :: int where "msPerDay = 86400000"
definition msPerHour :: int where "msPerHour = 3600000"
definition msPerMinute :: int where "msPerMinute = 60000"
definition msPerSecond :: int where "msPerSecond = 1000"

definition Day :: "int \<Rightarrow> int" where
  "Day t = t div msPerDay"

definition TimeWithinDay :: "int \<Rightarrow> int" where
  "TimeWithinDay t = t mod msPerDay"

definition DaysInYear :: "int \<Rightarrow> int" where
  "DaysInYear y =
     (if y mod 4 \<noteq> 0 then 365 else if y mod 100 \<noteq> 0 then 366
      else if y mod 400 \<noteq> 0 then 365 else 366)"

definition DayFromYear :: "int \<Rightarrow> int" where
  "DayFromYear y =
     365 * (y - 1970) + (y - 1969) div 4 - (y - 1901) div 100 + (y - 1601) div 400"

text \<open>
  ECMAScript defines \<open>YearFromTime t\<close> as the largest \<open>y\<close> with
  \<open>DayFromYear y * msPerDay \<le> t\<close>. The executable form estimates the year from the mean
  length of a Gregorian year and corrects the estimate by at most one; lemma
  \<open>YearFromTime_largest\<close> below shows that it is that largest year.
\<close>

definition YearFromTime :: "int \<Rightarrow> int" where
  "YearFromTime t =
     (let d = Day t; e = 1970 + (400 * d) div 146097 in
      if DayFromYear (e + 1) \<le> d then e + 1
      else if DayFromYear e \<le> d then e else e - 1)"

definition InLeapYear :: "int \<Rightarrow> int" where
  "InLeapYear t = (if DaysInYear (YearFromTime t) = 366 then 1 else 0)"

definition DayWithinYear :: "int \<Rightarrow> int" where
  "DayWithinYear t = Day t - DayFromYear (YearFromTime t)"

definition month_start :: "int \<Rightarrow> int \<Rightarrow> int" where
  "month_start leap m =
     (if m = 0 then 0 else if m = 1 then 31 else if m = 2 then 59 + leap
      else if m = 3 then 90 + leap else if m = 4 then 120 + leap
      else if m = 5 then 151 + leap else if m = 6 then 181 + leap
      else if m = 7 then 212 + leap else if m = 8 then 243 + leap
      else if m = 9 then 273 + leap else if m = 10 then 304 + leap
      else if m = 11 then 334 + leap else 365 + leap)"

definition MonthFromTime :: "int \<Rightarrow> int" where
  "MonthFromTime t =
     (let dwy = DayWithinYear t; leap = InLeapYear t in
      if dwy < 31 then 0 else if dwy < 59 + leap then 1 else if dwy < 90 + leap then 2
      else if dwy < 120 + leap then 3 else if dwy < 151 + leap then 4
      else if dwy < 181 + leap then 5 else if dwy < 212 + leap then 6
      else if dwy < 243 + leap then 7 else if dwy < 273 + leap then 8
      else if dwy < 304 + leap then 9 else if dwy < 334 + leap then 10 else 11)"

definition DateFromTime :: "int \<Rightarrow> int" where
  "DateFromTime t = DayWithinYear t - month_start (InLeapYear t) (MonthFromTime t) + 1"

definition HourFromTime :: "int \<Rightarrow> int" where
  "HourFromTime t = (t div msPerHour) mod 24"

definition MinFromTime :: "int \<Rightarrow> int" where
  "MinFromTime t = (t div msPerMinute) mod 60"

definition SecFromTime :: "int \<Rightarrow> int" where
  "SecFromTime t = (t div msPerSecond) mod 60"

definition msFromTime :: "int \<Rightarrow> int" where
  "msFromTime t = t mod msPerSecond"

definition MakeTime :: "int \<Rightarrow> int \<Rightarrow> int \<Rightarrow> int \<Rightarrow> int" where
  "MakeTime h m s milli = h * msPerHour + m * msPerMinute + s * msPerSecond + milli"

definition MakeDay :: "int \<Rightarrow> int \<Rightarrow> int \<Rightarrow> int" where
  "MakeDay year month date =
     (let ym = year + month div 12; mn = month mod 12 in
      DayFromYear ym + month_start (if DaysInYear ym = 366 then 1 else 0) mn + date - 1)"

definition MakeDate :: "int \<Rightarrow> int \<Rightarrow> int" where
  "MakeDate day time = day * msPerDay + time"

text \<open>A \<open>Date\<close> holds a time value of at most 8.64e15 milliseconds in absolute value.\<close>

definition valid_time :: "int \<Rightarrow> bool" where
  "valid_time t = (- 8640000000000000 \<le> t \<and> t \<le> 8640000000000000)"

definition digit_char :: "nat \<Rightarrow> char" where
  "digit_char d = char_of (48 + d)"

fun pad_digits :: "nat \<Rightarrow> nat \<Rightarrow> string" where
  "pad_digits 0 n = []"
| "pad_digits (Suc k) n = digit_char ((n div 10 ^ k) mod 10) # pad_digits k n"

definition year_string :: "int \<Rightarrow> string" where
  "year_string y =
     (if 0 \<le> y \<and> y \<le> 9999 then pad_digits 4 (nat y)
      else (if y < 0 then CHR ''-'' else CHR ''+'') # pad_digits 6 (nat \<bar>y\<bar>))"

definition toISOString :: "int \<Rightarrow> string" where
  "toISOString t =
     year_string (YearFromTime t) @ ''-'' @ pad_digits 2 (nat (MonthFromTime t + 1)) @ ''-'' @
     pad_digits 2 (nat (DateFromTime t)) @ ''T'' @ pad_digits 2 (nat (HourFromTime t)) @ '':'' @
     pad_digits 2 (nat (MinFromTime t)) @ '':'' @ pad_digits 2 (nat (SecFromTime t)) @ ''.'' @
     pad_digits 3 (nat (msFromTime t)) @ ''Z''"

definition digit_val :: "char \<Rightarrow> nat option" where
  "digit_val c =
     (let n = (of_char c :: nat) in if 48 \<le> n \<and> n \<le> 57 then Some (n - 48) else None)"

fun read_nat :: "nat \<Rightarrow> nat \<Rightarrow> string \<Rightarrow> (nat \<times> string) option" where
  "read_nat 0 acc s = Some (acc, s)"
| "read_nat (Suc k) acc [] = None"
| "read_nat (Suc k) acc (c # s) =
     (case digit_val c of None \<Rightarrow> None | Some d \<Rightarrow> read_nat k (10 * acc + d) s)"

fun expect :: "char \<Rightarrow> string \<Rightarrow> string option" where
  "expect c [] = None"
| "expect c (x # s) = (if x = c then Some s else None)"

fun read_year :: "string \<Rightarrow> (int \<times> string) option" where
  "read_year [] = None"
| "read_year (c # s) =
     (if c = CHR ''+'' then
        (case read_nat 6 0 s of None \<Rightarrow> None | Some (y, r) \<Rightarrow> Some (int y, r))
      else if c = CHR ''-'' then
        (case read_nat 6 0 s of None \<Rightarrow> None
         | Some (y, r) \<Rightarrow> if y = 0 then None else Some (- int y, r))
      else
        (case read_nat 4 0 (c # s) of None \<Rightarrow> None | Some (y, r) \<Rightarrow> Some (int y, r)))"

text \<open>
  \<open>Date_parse\<close> is \<open>Date.parse\<close> on the one format ECMAScript fixes, the one
  \<open>toISOString\<close> writes: \<open>YYYY-MM-DDTHH:mm:ss.sssZ\<close>, with a signed six-digit year
  outside 0..9999. Every other string gives \<open>None\<close> here (in a browser such a string is
  an invalid date or is read by a fallback the implementation chooses).
\<close>

fun read_fields :: "(nat \<times> char) list \<Rightarrow> string \<Rightarrow> (nat list \<times> string) option" where
  "read_fields [] s = Some ([], s)"
| "read_fields ((k, sep) # fs) s =
     (case read_nat k 0 s of None \<Rightarrow> None | Some (n, r) \<Rightarrow>
      case expect sep r of None \<Rightarrow> None | Some r' \<Rightarrow>
      case read_fields fs r' of None \<Rightarrow> None | Some (ns, r'') \<Rightarrow> Some (n # ns, r''))"

fun date_of_fields :: "int \<Rightarrow> nat list \<Rightarrow> int option" where
  "date_of_fields y [mo, d, h, mi, sec, milli] =
     (if 1 \<le> mo \<and> mo \<le> 12 \<and> 1 \<le> d
         \<and> int d \<le> (let leap = (if DaysInYear y = 366 then 1 else 0) in
                      month_start leap (int mo) - month_start leap (int mo - 1))
         \<and> h \<le> 23 \<and> mi \<le> 59 \<and> sec \<le> 59
      then (let tv = MakeDate (MakeDay y (int mo - 1) (int d))
                              (MakeTime (int h) (int mi) (int sec) (int milli))
            in if valid_time tv then Some tv else None)
      else None)"
| "date_of_fields y _ = None"

definition Date_parse :: "string \<Rightarrow> int option" where
  "Date_parse s =
     (case read_year s of None \<Rightarrow> None | Some (y, r1) \<Rightarrow>
      case expect CHR ''-'' r1 of None \<Rightarrow> None | Some r2 \<Rightarrow>
      case read_fields [(2, CHR ''-''), (2, CHR ''T''), (2, CHR '':''), (2, CHR '':''),
                        (2, CHR ''.''), (3, CHR ''Z'')] r2 of
        None \<Rightarrow> None
      | Some (ns, rest) \<Rightarrow> if rest = [] then date_of_fields y ns else None)"

subsection \<open>JSON values\<close>

datatype json =
    JNull
  | JBool bool
  | JNumber int
  | JString string
  | JArray "json list"
  | JObject "(string \<times> json) list"

text \<open>Reading a property of a parsed object: of two members with one key the last wins.\<close>

definition get_property :: "(string \<times> json) list \<Rightarrow> string \<Rightarrow> json option" where
  "get_property kv k = map_of (rev kv) k"

subsection \<open>class \<open>Blog\<close>\<close>

record Blog =
  id_blog :: int
  title :: string
  content :: string
  tags :: "string list"
  createdDate :: int
  updatedDate :: int

text \<open>
  A \<open>tags\<close> argument is \<open>None\<close> when the caller passes \<open>undefined\<close>; the default
  parameter \<open>tags = []\<close> then applies.
\<close>

definition default_tags :: "string list option \<Rightarrow> string list" where
  "default_tags tg = (case tg of None \<Rightarrow> [] | Some ts \<Rightarrow> ts)"

text \<open>
  The constructor reads the clock twice, once for \<open>createdDate\<close> and once for
  \<open>updatedDate\<close>: \<open>now1\<close> and \<open>now2\<close> are the two readings.
\<close>

definition Blog_new :: "int \<Rightarrow> string \<Rightarrow> string \<Rightarrow> string list option \<Rightarrow> int \<Rightarrow> int \<Rightarrow> Blog" where
  "Blog_new i t c tg now1 now2 =
     \<lparr>id_blog = i, title = t, content = c, tags = default_tags tg,
      createdDate = now1, updatedDate = now2\<rparr>"

definition Blog_update :: "Blog \<Rightarrow> string \<Rightarrow> string \<Rightarrow> string list option \<Rightarrow> int \<Rightarrow> Blog" where
  "Blog_update b t c tg now =
     b\<lparr>title := t, content := c, tags := default_tags tg, updatedDate := now\<rparr>"

subsection \<open>\<open>localStorage\<close>\<close>

record Storage =
  items :: "string \<rightharpoonup> json"
  setItem_calls :: nat

definition getItem :: "Storage \<Rightarrow> string \<Rightarrow> json option" where
  "getItem st k = items st k"

definition setItem :: "Storage \<Rightarrow> string \<Rightarrow> json \<Rightarrow> Storage" where
  "setItem st k v = st\<lparr>items := (items st)(k \<mapsto> v), setItem_calls := Suc (setItem_calls st)\<rparr>"

definition empty_storage :: Storage where
  "empty_storage = \<lparr>items = Map.empty, setItem_calls = 0\<rparr>"

subsection \<open>class \<open>BlogManager\<close>\<close>

text \<open>The state a method runs in: the manager's array \<open>this.blogs\<close> and the global store.\<close>

record State =
  blogs :: "Blog list"
  localStorage :: Storage

text \<open>
  \<open>Array.prototype.sort\<close> with a comparison function is stable, and with a consistent
  comparison function its result is the one stable sorted arrangement; insertion from the
  right computes it. \<open>cmp a b \<le> 0\<close> keeps \<open>a\<close> before \<open>b\<close>.
\<close>

fun insert_by :: "('a \<Rightarrow> 'a \<Rightarrow> int) \<Rightarrow> 'a \<Rightarrow> 'a list \<Rightarrow> 'a list" where
  "insert_by cmp x [] = [x]"
| "insert_by cmp x (y # ys) = (if cmp x y \<le> 0 then x # y # ys else y # insert_by cmp x ys)"

definition Array_sort :: "('a \<Rightarrow> 'a \<Rightarrow> int) \<Rightarrow> 'a list \<Rightarrow> 'a list" where
  "Array_sort cmp xs = foldr (insert_by cmp) xs []"

definition sortBlogs :: "State \<Rightarrow> State" where
  "sortBlogs s = s\<lparr>blogs := Array_sort (\<lambda>a b. updatedDate b - updatedDate a) (blogs s)\<rparr>"

text \<open>\<open>JSON.stringify\<close> of a \<open>Blog\<close>: its own properties in the order of their creation.\<close>

definition Blog_toJSON :: "Blog \<Rightarrow> json" where
  "Blog_toJSON b = JObject
     [(''id'', JNumber (id_blog b)),
      (''title'', JString (title b)),
      (''content'', JString (content b)),
      (''tags'', JArray (map JString (tags b))),
      (''createdDate'', JString (toISOString (createdDate b))),
      (''updatedDate'', JString (toISOString (updatedDate b)))]"

definition JSON_stringify :: "Blog list \<Rightarrow> json" where
  "JSON_stringify bs = JArray (map Blog_toJSON bs)"

definition saveToLocalStorage :: "State \<Rightarrow> State" where
  "saveToLocalStorage s =
     s\<lparr>localStorage := setItem (localStorage s) ''blogs'' (JSON_stringify (blogs s))\<rparr>"

text \<open>
  Loading fails with a \<open>TypeError\<close> where the source throws one: the stored value is not
  an array (it has no \<open>map\<close>), or an element is \<open>null\<close> (it has no properties).
  \<open>Unmodelled\<close> marks a stored value that has not the shape \<open>saveToLocalStorage\<close> writes:
  the source still builds an entry from it (with an undefined field, a field of another
  type, an invalid date or a date read by another rule of \<open>Date\<close>), and this model does
  not say which.
\<close>

datatype load_error = TypeError | Unmodelled

fun string_elems :: "json list \<Rightarrow> string list option" where
  "string_elems [] = Some []"
| "string_elems (JString x # js) =
     (case string_elems js of None \<Rightarrow> None | Some xs \<Rightarrow> Some (x # xs))"
| "string_elems (_ # js) = None"

fun tags_arg :: "json option \<Rightarrow> string list option option" where
  "tags_arg None = Some None"
| "tags_arg (Some (JArray js)) =
     (case string_elems js of None \<Rightarrow> None | Some xs \<Rightarrow> Some (Some xs))"
| "tags_arg (Some _) = None"

fun date_arg :: "json option \<Rightarrow> int option" where
  "date_arg (Some (JString x)) = Date_parse x"
| "date_arg _ = None"

fun number_arg :: "json option \<Rightarrow> int option" where
  "number_arg (Some (JNumber n)) = Some n"
| "number_arg _ = None"

fun string_arg :: "json option \<Rightarrow> string option" where
  "string_arg (Some (JString x)) = Some x"
| "string_arg _ = None"

text \<open>
  The callback of \<open>parsedBlogs.map\<close>: a \<open>Blog\<close> is constructed (reading the clock, \<open>now\<close>)
  and both dates are then overwritten with the parsed ones.
\<close>

definition reviveObject :: "int \<Rightarrow> (string \<times> json) list \<Rightarrow> load_error + Blog" where
  "reviveObject now kv =
     (case number_arg (get_property kv ''id'') of None \<Rightarrow> Inl Unmodelled | Some i \<Rightarrow>
      case string_arg (get_property kv ''title'') of None \<Rightarrow> Inl Unmodelled | Some t \<Rightarrow>
      case string_arg (get_property kv ''content'') of None \<Rightarrow> Inl Unmodelled | Some c \<Rightarrow>
      case tags_arg (get_property kv ''tags'') of None \<Rightarrow> Inl Unmodelled | Some tg \<Rightarrow>
      case date_arg (get_property kv ''createdDate'') of None \<Rightarrow> Inl Unmodelled | Some cd \<Rightarrow>
      case date_arg (get_property kv ''updatedDate'') of None \<Rightarrow> Inl Unmodelled | Some ud \<Rightarrow>
        Inr ((Blog_new i t c tg now now)\<lparr>createdDate := cd, updatedDate := ud\<rparr>))"

fun reviveBlog :: "int \<Rightarrow> json \<Rightarrow> load_error + Blog" where
  "reviveBlog now JNull = Inl TypeError"
| "reviveBlog now (JObject kv) = reviveObject now kv"
| "reviveBlog now _ = Inl Unmodelled"

fun reviveAll :: "int \<Rightarrow> json list \<Rightarrow> load_error + Blog list" where
  "reviveAll now [] = Inr []"
| "reviveAll now (j # js) =
     (case reviveBlog now j of
        Inl TypeError \<Rightarrow> Inl TypeError
      | Inl Unmodelled \<Rightarrow> (case reviveAll now js of Inl TypeError \<Rightarrow> Inl TypeError | _ \<Rightarrow> Inl Unmodelled)
      | Inr b \<Rightarrow> (case reviveAll now js of Inl e \<Rightarrow> Inl e | Inr bs \<Rightarrow> Inr (b # bs)))"

definition loadFromLocalStorage :: "State \<Rightarrow> int \<Rightarrow> load_error + State" where
  "loadFromLocalStorage s now =
     (case getItem (localStorage s) ''blogs'' of
        None \<Rightarrow> Inr s
      | Some (JArray js) \<Rightarrow>
          (case reviveAll now js of Inl e \<Rightarrow> Inl e | Inr bs \<Rightarrow> Inr (s\<lparr>blogs := bs\<rparr>))
      | Some _ \<Rightarrow> Inl TypeError)"

definition BlogManager_new :: "Storage \<Rightarrow> int \<Rightarrow> load_error + State" where
  "BlogManager_new st now = loadFromLocalStorage \<lparr>blogs = [], localStorage = st\<rparr> now"

text \<open>
  \<open>addBlog\<close> reads the clock three times: \<open>Date.now()\<close> for the id, then the two readings
  of the constructor.
\<close>

definition addBlog :: "State \<Rightarrow> string \<Rightarrow> string \<Rightarrow> string list option \<Rightarrow> int \<Rightarrow> int \<Rightarrow> int \<Rightarrow> Blog \<times> State" where
  "addBlog s t c tg now_id now1 now2 =
     (let blog = Blog_new now_id t c tg now1 now2;
          s1 = s\<lparr>blogs := blogs s @ [blog]\<rparr>;
          s2 = sortBlogs s1;
          s3 = saveToLocalStorage s2
      in (blog, s3))"

definition getBlog :: "State \<Rightarrow> int \<Rightarrow> Blog option" where
  "getBlog s i = find (\<lambda>blog. id_blog blog = i) (blogs s)"

text \<open>
  \<open>blog.update(...)\<close> mutates the object \<open>find\<close> returned, which is the first element of
  the array with that id; the array then holds the mutated object at the same place.
\<close>

fun mutate_first :: "('a \<Rightarrow> bool) \<Rightarrow> ('a \<Rightarrow> 'a) \<Rightarrow> 'a list \<Rightarrow> 'a list" where
  "mutate_first P f [] = []"
| "mutate_first P f (x # xs) = (if P x then f x # xs else x # mutate_first P f xs)"

definition updateBlog :: "State \<Rightarrow> int \<Rightarrow> string \<Rightarrow> string \<Rightarrow> string list option \<Rightarrow> int \<Rightarrow> Blog option \<times> State" where
  "updateBlog s i t c tg now =
     (case getBlog s i of
        None \<Rightarrow> (None, s)
      | Some blog \<Rightarrow>
          (let s1 = s\<lparr>blogs := mutate_first (\<lambda>blog. id_blog blog = i)
                                   (\<lambda>blog. Blog_update blog t c tg now) (blogs s)\<rparr>;
               s2 = sortBlogs s1;
               s3 = saveToLocalStorage s2
           in (Some (Blog_update blog t c tg now), s3)))"

definition deleteBlog :: "State \<Rightarrow> int \<Rightarrow> State" where
  "deleteBlog s i =
     saveToLocalStorage (s\<lparr>blogs := filter (\<lambda>blog. id_blog blog \<noteq> i) (blogs s)\<rparr>)"

text \<open>A JavaScript \<open>Set\<close> lists its elements in the order of their first insertion.\<close>

definition Set_add :: "'a list \<Rightarrow> 'a \<Rightarrow> 'a list" where
  "Set_add tagsSet x = (if x \<in> set tagsSet then tagsSet else tagsSet @ [x])"

definition getAllTags :: "State \<Rightarrow> string list" where
  "getAllTags s = sort (foldl (\<lambda>tagsSet blog. foldl Set_add tagsSet (tags blog)) [] (blogs s))"

text \<open>
  The argument of \<open>filterByTag\<close> is \<open>None\<close> for an absent tag (\<open>undefined\<close>); that and the
  empty string are the falsy tags.
\<close>

definition filterByTag :: "State \<Rightarrow> string option \<Rightarrow> Blog list" where
  "filterByTag s tag =
     (case tag of
        None \<Rightarrow> blogs s
      | Some x \<Rightarrow> if x = [] then blogs s else filter (\<lambda>blog. x \<in> set (tags blog)) (blogs s))"

subsection \<open>Sequences of calls\<close>

text \<open>A call of a mutating method, with the clock readings the call makes.\<close>

datatype call =
    Add string string "string list option" int int int
  | Update int string string "string list option" int
  | Delete int

fun step :: "State \<Rightarrow> call \<Rightarrow> State" where
  "step s (Add t c tg now_id now1 now2) = snd (addBlog s t c tg now_id now1 now2)"
| "step s (Update i t c tg now) = snd (updateBlog s i t c tg now)"
| "step s (Delete i) = deleteBlog s i"

definition run :: "State \<Rightarrow> call list \<Rightarrow> State" where
  "run s cs = foldl step s cs"

text \<open>The manager a page starts with when nothing is stored.\<close>

definition fresh :: State where
  "fresh = \<lparr>blogs = [], localStorage = empty_storage\<rparr>"

fun readings :: "call \<Rightarrow> int list" where
  "readings (Add t c tg now_id now1 now2) = [now_id, now1, now2]"
| "readings (Update i t c tg now) = [now]"
| "readings (Delete i) = []"

fun id_readings :: "call list \<Rightarrow> int list" where
  "id_readings [] = []"
| "id_readings (Add t c tg now_id now1 now2 # cs) = now_id # id_readings cs"
| "id_readings (_ # cs) = id_readings cs"

text \<open>All clock readings of a sequence of calls, in the order in which they are made.\<close>

definition clock :: "call list \<Rightarrow> int list" where
  "clock cs = concat (map readings cs)"

text \<open>The ids of the entries that the \<open>addBlog\<close> calls of a sequence return, in order.\<close>

fun assigned_ids :: "State \<Rightarrow> call list \<Rightarrow> int list" where
  "assigned_ids s [] = []"
| "assigned_ids s (Add t c tg now_id now1 now2 # cs) =
     id_blog (fst (addBlog s t c tg now_id now1 now2))
       # assigned_ids (step s (Add t c tg now_id now1 now2)) cs"
| "assigned_ids s (Update i t c tg now # cs) = assigned_ids (step s (Update i t c tg now)) cs"
| "assigned_ids s (Delete i # cs) = assigned_ids (step s (Delete i)) cs"

definition sorted_desc :: "Blog list \<Rightarrow> bool" where
  "sorted_desc bs = sorted_wrt (\<lambda>a b. updatedDate b \<le> updatedDate a) bs"

text \<open>
  The store agrees with the array: nothing is stored and the array is empty, or the
  stored value is the serialization of the array.
\<close>

definition stored_in_sync :: "State \<Rightarrow> bool" where
  "stored_in_sync s =
     (case getItem (localStorage s) ''blogs'' of
        None \<Rightarrow> blogs s = []
      | Some j \<Rightarrow> j = JSON_stringify (blogs s))"

definition valid_dates :: "Blog list \<Rightarrow> bool" where
  "valid_dates bs =
     list_all (\<lambda>blog. valid_time (createdDate blog) \<and> valid_time (updatedDate blog)) bs"

subsection \<open>Example states\<close>

text \<open>
  The collection after \<open>add("A", "body1", ["x"])\<close> at time 1000 and
  \<open>add("B", "body2", ["x", "y"])\<close> at time 2000.
\<close>

definition ex_A :: Blog where
  "ex_A = \<lparr>id_blog = 1000, title = ''A'', content = ''body1'', tags = [''x''],
           createdDate = 1000, updatedDate = 1000\<rparr>"

definition ex_B :: Blog where
  "ex_B = \<lparr>id_blog = 2000, title = ''B'', content = ''body2'', tags = [''x'', ''y''],
           createdDate = 2000, updatedDate = 2000\<rparr>"

definition ex_state :: State where
  "ex_state = \<lparr>blogs = [ex_B, ex_A], localStorage = empty_storage\<rparr>"

text \<open>A collection in which two entries have the id 1000.\<close>

definition ex_A2 :: Blog where
  "ex_A2 = \<lparr>id_blog = 1000, title = ''A again'', content = ''body3'', tags = [],
            createdDate = 500, updatedDate = 500\<rparr>"

definition ex_dup :: State where
  "ex_dup = \<lparr>blogs = [ex_B, ex_A, ex_A2], localStorage = empty_storage\<rparr>"

text \<open>A sequence of calls made while the clock advances.\<close>

definition ex_calls :: "call list" where
  "ex_calls = [Add ''A'' ''body1'' (Some [''x'']) 1000 1000 1001,
               Update 1000 ''A2'' ''body2'' (Some []) 3000,
               Add ''B'' ''body2'' (Some [''x'', ''y'']) 4000 4000 4000,
               Delete 1000,
               Add ''C'' ''body3'' None 5000 5001 5001]"

text \<open>Two \<open>addBlog\<close> calls at one reading of the clock.\<close>

definition ex_same_instant :: "call list" where
  "ex_same_instant = [Add ''A'' ''a'' (Some [''x'']) 1000 1000 1000,
                      Add ''B'' ''b'' (Some [''y'']) 1000 1000 1000]"

section \<open>Properties\<close>

subsection \<open>Sorting and the state\<close>

lemma blogs_saveToLocalStorage [simp]: "blogs (saveToLocalStorage s) = blogs s"
  by (simp add: saveToLocalStorage_def)

lemma localStorage_sortBlogs [simp]: "localStorage (sortBlogs s) = localStorage s"
  by (simp add: sortBlogs_def)

lemma set_insert_by [simp]: "set (insert_by cmp x xs) = insert x (set xs)"
  by (induction xs) auto

lemma mset_insert_by [simp]: "mset (insert_by cmp x xs) = add_mset x (mset xs)"
  by (induction xs) auto

lemma mset_Array_sort [simp]: "mset (Array_sort cmp xs) = mset xs"
  unfolding Array_sort_def by (induction xs) auto

lemma set_Array_sort [simp]: "set (Array_sort cmp xs) = set xs"
  unfolding Array_sort_def by (induction xs) auto

lemma sorted_desc_insert_by:
  "sorted_desc xs \<Longrightarrow> sorted_desc (insert_by (\<lambda>a b. updatedDate b - updatedDate a) x xs)"
  unfolding sorted_desc_def by (induction xs) auto

lemma sorted_desc_Array_sort:
  "sorted_desc (Array_sort (\<lambda>a b. updatedDate b - updatedDate a) xs)"
proof (induction xs)
  case Nil
  show ?case by (simp add: Array_sort_def sorted_desc_def)
next
  case (Cons x xs)
  then show ?case
    using sorted_desc_insert_by[of "Array_sort (\<lambda>a b. updatedDate b - updatedDate a) xs" x]
    by (simp add: Array_sort_def)
qed

lemma sorted_desc_sortBlogs: "sorted_desc (blogs (sortBlogs s))"
  by (simp add: sortBlogs_def sorted_desc_Array_sort)

lemma sorted_desc_filter: "sorted_desc xs \<Longrightarrow> sorted_desc (filter P xs)"
  unfolding sorted_desc_def by (rule sorted_wrt_filter)

text \<open>
  Each call keeps a sorted collection sorted: \<open>addBlog\<close> and a successful \<open>updateBlog\<close>
  sort, an unsuccessful \<open>updateBlog\<close> changes nothing, and \<open>deleteBlog\<close> does not sort
  but only drops elements.
\<close>

lemma step_sorted: "sorted_desc (blogs s) \<Longrightarrow> sorted_desc (blogs (step s c))"
proof (cases c)
  case (Add t c' tg n0 n1 n2)
  then show ?thesis by (simp add: addBlog_def Let_def sorted_desc_sortBlogs)
next
  case (Update i t c' tg now)
  assume "sorted_desc (blogs s)"
  with Update show ?thesis
    by (cases "getBlog s i") (simp_all add: updateBlog_def Let_def sorted_desc_sortBlogs)
next
  case (Delete i)
  assume "sorted_desc (blogs s)"
  with Delete show ?thesis by (simp add: deleteBlog_def sorted_desc_filter)
qed

lemma run_sorted: "sorted_desc (blogs s) \<Longrightarrow> sorted_desc (blogs (run s cs))"
  unfolding run_def by (induction cs arbitrary: s) (simp_all add: step_sorted)

text \<open>
  C1. Whatever calls of \<open>addBlog\<close>, \<open>updateBlog\<close> and \<open>deleteBlog\<close> are made on a manager
  that started with an empty store, with whatever clock readings, the array is sorted by
  \<open>updatedDate\<close>, latest first, when the last call returns. The list of calls is
  arbitrary, so this holds after each call of a sequence. A manager constructed later on
  the store these calls have left is such a state again (\<open>restore_of_run\<close> and
  \<open>restored_manager_sorted\<close> below); neither \<open>loadFromLocalStorage\<close> nor \<open>deleteBlog\<close>
  sorts, so an array loaded from a store that something else wrote unsorted stays
  unsorted until the next \<open>addBlog\<close> or successful \<open>updateBlog\<close>.
\<close>

theorem collection_sorted_after_every_call: "sorted_desc (blogs (run fresh cs))"
  by (rule run_sorted) (simp add: fresh_def sorted_desc_def)

subsection \<open>Filtering by tag\<close>

text \<open>
  C3. \<open>filterByTag\<close> with an absent or empty tag returns the array as it is. With a
  non-empty tag \<open>x\<close> it returns the entries whose \<open>tags\<close> contain \<open>x\<close> and no others, in
  the order of the array: a subsequence of it, sorted if the array is.
\<close>

theorem filterByTag_correct:
  "filterByTag s None = blogs s \<and> filterByTag s (Some []) = blogs s \<and>
   (x \<noteq> [] \<longrightarrow>
      filterByTag s (Some x) = filter (\<lambda>blog. x \<in> set (tags blog)) (blogs s) \<and>
      set (filterByTag s (Some x)) = {blog \<in> set (blogs s). x \<in> set (tags blog)} \<and>
      subseq (filterByTag s (Some x)) (blogs s) \<and>
      (sorted_desc (blogs s) \<longrightarrow> sorted_desc (filterByTag s (Some x))))"
  by (auto simp: filterByTag_def sorted_desc_filter)

theorem filterByTag_correct_witness:
  "''y'' \<noteq> [] \<and> filterByTag ex_state (Some ''y'') = [ex_B] \<and>
   sorted_desc (blogs ex_state) \<and> sorted_desc (filterByTag ex_state (Some ''y''))"
  using filterByTag_correct[of ex_state "''y''"]
  by (simp add: ex_state_def ex_A_def ex_B_def sorted_desc_def)

subsection \<open>All tags\<close>

lemma set_foldl_Set_add: "set (foldl Set_add acc xs) = set acc \<union> set xs"
  by (induction xs arbitrary: acc) (auto simp: Set_add_def)

lemma distinct_foldl_Set_add: "distinct acc \<Longrightarrow> distinct (foldl Set_add acc xs)"
  by (induction xs arbitrary: acc) (auto simp: Set_add_def)

lemma set_collect_tags:
  "set (foldl (\<lambda>tagsSet blog. foldl Set_add tagsSet (tags blog)) acc bs)
     = set acc \<union> (\<Union>blog\<in>set bs. set (tags blog))"
  by (induction bs arbitrary: acc) (auto simp: set_foldl_Set_add)

lemma distinct_collect_tags:
  "distinct acc \<Longrightarrow>
   distinct (foldl (\<lambda>tagsSet blog. foldl Set_add tagsSet (tags blog)) acc bs)"
  by (induction bs arbitrary: acc) (auto simp: distinct_foldl_Set_add)

lemma getAllTags_example: "getAllTags ex_state = [''x'', ''y'']"
  by (simp add: getAllTags_def ex_state_def ex_A_def ex_B_def Set_add_def)

text \<open>
  C4. \<open>getAllTags\<close> returns the tags of all entries: every tag of every entry and nothing
  else, each once, in strictly ascending lexicographic order.
\<close>

theorem getAllTags_sorted_union:
  "sorted_wrt (<) (getAllTags s) \<and>
   set (getAllTags s) = (\<Union>blog\<in>set (blogs s). set (tags blog))"
  by (simp add: getAllTags_def strict_sorted_iff set_collect_tags distinct_collect_tags)

subsection \<open>Unknown ids\<close>

lemma find_None_ids: "i \<notin> id_blog ` set bs \<Longrightarrow> find (\<lambda>blog. id_blog blog = i) bs = None"
  by (auto simp: find_None_iff)

lemma filter_absent_id:
  "i \<notin> id_blog ` set bs \<Longrightarrow> filter (\<lambda>blog. id_blog blog \<noteq> i) bs = bs"
  by (induction bs) auto

text \<open>
  C5. \<open>updateBlog\<close> with an id that no entry has returns \<open>undefined\<close> (\<open>None\<close>) and leaves
  the whole state as it was: the array, the stored value and the number of \<open>setItem\<close>
  calls, so nothing is written.
\<close>

theorem updateBlog_unknown_id:
  "i \<notin> id_blog ` set (blogs s) \<Longrightarrow> updateBlog s i t c tg now = (None, s)"
  by (simp add: updateBlog_def getBlog_def find_None_ids)

theorem updateBlog_unknown_id_witness:
  "3000 \<notin> id_blog ` set (blogs ex_state) \<and>
   updateBlog ex_state 3000 ''A2'' ''body'' (Some []) 5000 = (None, ex_state)"
  using updateBlog_unknown_id[of 3000 ex_state "''A2''" "''body''" "Some []" 5000]
  by (simp add: ex_state_def ex_A_def ex_B_def)

text \<open>
  C6. \<open>deleteBlog\<close> with an id that no entry has leaves the array as it was and has no
  failing branch; it still calls \<open>setItem\<close> once, and the store then holds the
  serialization of the (unchanged) array under \<open>blogs\<close>.
\<close>

theorem deleteBlog_unknown_id:
  "i \<notin> id_blog ` set (blogs s) \<Longrightarrow>
     blogs (deleteBlog s i) = blogs s \<and>
     localStorage (deleteBlog s i)
       = setItem (localStorage s) ''blogs'' (JSON_stringify (blogs s)) \<and>
     getItem (localStorage (deleteBlog s i)) ''blogs'' = Some (JSON_stringify (blogs s)) \<and>
     setItem_calls (localStorage (deleteBlog s i)) = Suc (setItem_calls (localStorage s))"
  by (simp add: deleteBlog_def saveToLocalStorage_def filter_absent_id setItem_def getItem_def)

theorem deleteBlog_unknown_id_witness:
  "3000 \<notin> id_blog ` set (blogs ex_state) \<and>
   blogs (deleteBlog ex_state 3000) = [ex_B, ex_A] \<and>
   getItem (localStorage (deleteBlog ex_state 3000)) ''blogs''
     = Some (JSON_stringify [ex_B, ex_A]) \<and>
   setItem_calls (localStorage (deleteBlog ex_state 3000)) = 1"
  using deleteBlog_unknown_id[of 3000 ex_state]
  by (simp add: ex_state_def ex_A_def ex_B_def empty_storage_def setItem_def getItem_def)

subsection \<open>Lookup, deletion and update by id\<close>

lemma find_first:
  "P b \<Longrightarrow> \<forall>y\<in>set ys. \<not> P y \<Longrightarrow> find P (ys @ b # zs) = Some b"
  by (induction ys) auto

lemma blogs_deleteBlog:
  "blogs (deleteBlog s i) = filter (\<lambda>blog. id_blog blog \<noteq> i) (blogs s)"
  by (simp add: deleteBlog_def)

lemma id_absent_deleteBlog: "i \<notin> id_blog ` set (blogs (deleteBlog s i))"
  unfolding blogs_deleteBlog by auto

lemma getBlog_first:
  "blogs s = ys @ b # zs \<and> id_blog b = i \<and> i \<notin> id_blog ` set ys \<longrightarrow> getBlog s i = Some b"
proof (intro impI, elim conjE)
  assume a: "blogs s = ys @ b # zs" "id_blog b = i" "i \<notin> id_blog ` set ys"
  from a(3) have "\<forall>y\<in>set ys. id_blog y \<noteq> i" by auto
  from find_first[of "\<lambda>blog. id_blog blog = i" b ys zs, OF a(2) this]
  show "getBlog s i = Some b" by (simp add: getBlog_def a(1))
qed

lemma getBlog_None_iff: "getBlog s i = None \<longleftrightarrow> i \<notin> id_blog ` set (blogs s)"
  unfolding getBlog_def by (auto simp: find_None_iff)

text \<open>
  C10. \<open>deleteBlog\<close> keeps exactly the entries with another id, in their order, so that no
  entry with the given id is left, however many there were. \<open>getBlog\<close> returns the
  entry with the given id before which no entry has that id (the first one), and
  \<open>undefined\<close> exactly when no entry has it.
\<close>

theorem deleteBlog_all_getBlog_first:
  "blogs (deleteBlog s i) = filter (\<lambda>blog. id_blog blog \<noteq> i) (blogs s) \<and>
   i \<notin> id_blog ` set (blogs (deleteBlog s i)) \<and>
   (blogs s = ys @ b # zs \<and> id_blog b = i \<and> i \<notin> id_blog ` set ys
      \<longrightarrow> getBlog s i = Some b) \<and>
   (getBlog s i = None \<longleftrightarrow> i \<notin> id_blog ` set (blogs s))"
  by (intro conjI blogs_deleteBlog id_absent_deleteBlog getBlog_first getBlog_None_iff)

theorem deleteBlog_all_getBlog_first_witness:
  "blogs (deleteBlog ex_dup 1000) = [ex_B] \<and>
   1000 \<notin> id_blog ` set (blogs (deleteBlog ex_dup 1000)) \<and>
   blogs ex_dup = [ex_B] @ ex_A # [ex_A2] \<and> id_blog ex_A = 1000 \<and> id_blog ex_A2 = 1000 \<and>
   1000 \<notin> id_blog ` set [ex_B] \<and> getBlog ex_dup 1000 = Some ex_A"
  using deleteBlog_all_getBlog_first[of ex_dup 1000 "[ex_B]" ex_A "[ex_A2]"]
  by (simp add: ex_dup_def ex_A_def ex_B_def ex_A2_def)

lemma add_mset_diff_other: "a \<noteq> b \<Longrightarrow> add_mset a (M - {#b#}) = add_mset a M - {#b#}"
  by (simp add: multiset_eq_iff)

lemma find_SomeD: "find P xs = Some b \<Longrightarrow> P b \<and> b \<in> set xs"
  by (induction xs) (auto split: if_splits)

lemma mset_mutate_first:
  "find P xs = Some b \<Longrightarrow> mset (mutate_first P f xs) = add_mset (f b) (mset xs - {#b#})"
proof (induction xs)
  case Nil
  then show ?case by simp
next
  case (Cons a xs)
  show ?case
  proof (cases "P a")
    case True
    with Cons.prems show ?thesis by simp
  next
    case False
    with Cons.prems have f: "find P xs = Some b" by simp
    from False have "a \<noteq> b" using find_SomeD[OF f] by auto
    have "mset (mutate_first P f (a # xs)) = add_mset a (add_mset (f b) (mset xs - {#b#}))"
      using False Cons.IH[OF f] by simp
    also have "\<dots> = add_mset (f b) (add_mset a (mset xs - {#b#}))"
      by (rule add_mset_commute)
    also have "add_mset a (mset xs - {#b#}) = add_mset a (mset xs) - {#b#}"
      using \<open>a \<noteq> b\<close> by (rule add_mset_diff_other)
    finally show ?thesis by simp
  qed
qed

lemma map_mutate_first:
  "(\<And>x. g (f x) = g x) \<Longrightarrow> map g (mutate_first P f xs) = map g xs"
  by (induction xs) auto

lemma set_mutate_first: "set (mutate_first P f xs) \<subseteq> set xs \<union> f ` set xs"
  by (induction xs) auto

lemma find_present_distinct:
  "distinct (map id_blog bs) \<Longrightarrow> b \<in> set bs \<Longrightarrow>
   find (\<lambda>blog. id_blog blog = id_blog b) bs = Some b"
  by (induction bs) (auto simp: image_iff)

lemma getBlog_present:
  assumes "b \<in> set (blogs s)"
    and "getBlog s (id_blog b) = Some b \<or> distinct (map id_blog (blogs s))"
  shows "getBlog s (id_blog b) = Some b"
  using assms find_present_distinct[of "blogs s" b] by (auto simp: getBlog_def)

lemma updateBlog_found:
  assumes "getBlog s i = Some b"
  shows "fst (updateBlog s i t c tg now)
           = Some (b\<lparr>title := t, content := c,
                     tags := (case tg of None \<Rightarrow> [] | Some ts \<Rightarrow> ts), updatedDate := now\<rparr>)"
    and "mset (blogs (snd (updateBlog s i t c tg now)))
           = add_mset (b\<lparr>title := t, content := c,
                     tags := (case tg of None \<Rightarrow> [] | Some ts \<Rightarrow> ts), updatedDate := now\<rparr>)
                      (mset (blogs s) - {#b#})"
  using assms
  by (simp_all add: updateBlog_def Let_def sortBlogs_def Blog_update_def getBlog_def
      mset_mutate_first default_tags_def)

text \<open>
  C9, as the code has it. \<open>updateBlog\<close> changes the entry that \<open>getBlog\<close> finds: the
  first entry of the array with the given id, which is every entry present when the ids
  in the array are pairwise distinct. For such an entry \<open>b\<close>, \<open>updateBlog\<close> with the id of
  \<open>b\<close> returns \<open>b\<close> with the new title and content, with the tags passed (none when the
  argument is \<open>undefined\<close>) and with \<open>updatedDate\<close> set to the clock reading; its id and
  \<open>createdDate\<close> are those of \<open>b\<close>. The array afterwards holds the entries it held before
  except that this one occurrence of \<open>b\<close> is replaced by the returned entry (sorting only
  rearranges them).
\<close>

theorem updateBlog_first_with_id:
  assumes "b \<in> set (blogs s)"
    and "getBlog s (id_blog b) = Some b \<or> distinct (map id_blog (blogs s))"
    and "b' = b\<lparr>title := t, content := c,
                  tags := (case tg of None \<Rightarrow> [] | Some ts \<Rightarrow> ts), updatedDate := now\<rparr>"
  shows "fst (updateBlog s (id_blog b) t c tg now) = Some b' \<and>
         title b' = t \<and> content b' = c \<and>
         (tg = None \<longrightarrow> tags b' = []) \<and> (\<forall>ts. tg = Some ts \<longrightarrow> tags b' = ts) \<and>
         updatedDate b' = now \<and> id_blog b' = id_blog b \<and> createdDate b' = createdDate b \<and>
         mset (blogs (snd (updateBlog s (id_blog b) t c tg now)))
           = add_mset b' (mset (blogs s) - {#b#})"
proof -
  have g: "getBlog s (id_blog b) = Some b" using assms(1,2) by (rule getBlog_present)
  show ?thesis
    unfolding assms(3) using updateBlog_found[OF g, of t c tg now] by simp
qed

theorem updateBlog_first_with_id_witness:
  "ex_A \<in> set (blogs ex_state) \<and> distinct (map id_blog (blogs ex_state)) \<and>
   fst (updateBlog ex_state 1000 ''A2'' ''body2'' (Some [''z'', ''w'']) 3000)
     = Some \<lparr>id_blog = 1000, title = ''A2'', content = ''body2'', tags = [''z'', ''w''],
              createdDate = 1000, updatedDate = 3000\<rparr> \<and>
   mset (blogs (snd (updateBlog ex_state 1000 ''A2'' ''body2'' (Some [''z'', ''w'']) 3000)))
     = {#\<lparr>id_blog = 1000, title = ''A2'', content = ''body2'', tags = [''z'', ''w''],
              createdDate = 1000, updatedDate = 3000\<rparr>, ex_B#} \<and>
   ex_A \<in> set (blogs ex_dup) \<and> getBlog ex_dup 1000 = Some ex_A \<and>
   fst (updateBlog ex_dup 1000 ''A3'' ''body4'' None 3000)
     = Some \<lparr>id_blog = 1000, title = ''A3'', content = ''body4'', tags = [],
              createdDate = 1000, updatedDate = 3000\<rparr> \<and>
   mset (blogs (snd (updateBlog ex_dup 1000 ''A3'' ''body4'' None 3000)))
     = {#\<lparr>id_blog = 1000, title = ''A3'', content = ''body4'', tags = [],
              createdDate = 1000, updatedDate = 3000\<rparr>, ex_B, ex_A2#}"
  using updateBlog_first_with_id[where s = ex_state and b = ex_A and t = "''A2''"
      and c = "''body2''" and tg = "Some [''z'', ''w'']" and now = 3000, OF _ _ refl]
    updateBlog_first_with_id[where s = ex_dup and b = ex_A and t = "''A3''"
      and c = "''body4''" and tg = None and now = 3000, OF _ _ refl]
  by (simp add: ex_state_def ex_dup_def ex_A_def ex_B_def ex_A2_def getBlog_def)

text \<open>
  An entry that is present but is not the first with its id is not updated. After two
  \<open>addBlog\<close> calls at the reading 1000 both entries have the id 1000; \<open>updateBlog\<close> with
  that id rewrites the entry \<open>A\<close> and leaves \<open>B\<close> with its title, content, tags and
  \<open>updatedDate\<close>.
\<close>

theorem updateBlog_every_entry_counterexample:
  "blogs (run fresh ex_same_instant) =
     [\<lparr>id_blog = 1000, title = ''A'', content = ''a'', tags = [''x''],
        createdDate = 1000, updatedDate = 1000\<rparr>,
      \<lparr>id_blog = 1000, title = ''B'', content = ''b'', tags = [''y''],
        createdDate = 1000, updatedDate = 1000\<rparr>] \<and>
   fst (updateBlog (run fresh ex_same_instant) 1000 ''T'' ''C'' (Some [''z'']) 2000)
     = Some \<lparr>id_blog = 1000, title = ''T'', content = ''C'', tags = [''z''],
              createdDate = 1000, updatedDate = 2000\<rparr> \<and>
   blogs (snd (updateBlog (run fresh ex_same_instant) 1000 ''T'' ''C'' (Some [''z'']) 2000)) =
     [\<lparr>id_blog = 1000, title = ''T'', content = ''C'', tags = [''z''],
        createdDate = 1000, updatedDate = 2000\<rparr>,
      \<lparr>id_blog = 1000, title = ''B'', content = ''b'', tags = [''y''],
        createdDate = 1000, updatedDate = 1000\<rparr>]"
  by (simp add: ex_same_instant_def run_def fresh_def addBlog_def updateBlog_def
      getBlog_def sortBlogs_def Array_sort_def Blog_new_def Blog_update_def default_tags_def
      Let_def)

subsection \<open>Timestamps\<close>

lemma blogs_step_Add:
  "set (blogs (step s (Add t c tg n0 n1 n2))) = insert (Blog_new n0 t c tg n1 n2) (set (blogs s))"
  by (simp add: addBlog_def Let_def sortBlogs_def)

lemma blogs_step_Update:
  "set (blogs (step s (Update i t c tg now)))
     \<subseteq> set (blogs s) \<union> (\<lambda>blog. Blog_update blog t c tg now) ` set (blogs s)"
  using set_mutate_first[of "\<lambda>blog. id_blog blog = i" "\<lambda>blog. Blog_update blog t c tg now" "blogs s"]
  by (cases "getBlog s i") (simp_all add: updateBlog_def Let_def sortBlogs_def)

lemma blogs_step_Delete: "set (blogs (step s (Delete i))) \<subseteq> set (blogs s)"
  by (auto simp: deleteBlog_def)

text \<open>
  The invariant of a run on a clock that does not go back: every entry was created no
  later than it was last updated, and no later than the latest reading so far.
\<close>

lemma step_created:
  assumes "sorted (lo # readings c)"
    and "\<forall>blog\<in>set (blogs s). createdDate blog \<le> updatedDate blog \<and> createdDate blog \<le> lo"
  shows "\<forall>blog\<in>set (blogs (step s c)).
           createdDate blog \<le> updatedDate blog \<and> createdDate blog \<le> last (lo # readings c)"
proof (cases c)
  case (Add t c' tg n0 n1 n2)
  with assms show ?thesis
    unfolding Add blogs_step_Add by (auto simp: Blog_new_def)
next
  case (Update i t c' tg now)
  with assms show ?thesis
    using blogs_step_Update[of s i t c' tg now] by (fastforce simp: Blog_update_def)
next
  case (Delete i)
  with assms show ?thesis
    using blogs_step_Delete[of s i] by auto
qed

lemma run_created:
  "sorted (lo # clock cs) \<Longrightarrow>
   \<forall>blog\<in>set (blogs s). createdDate blog \<le> updatedDate blog \<and> createdDate blog \<le> lo \<Longrightarrow>
   \<forall>blog\<in>set (blogs (run s cs)). createdDate blog \<le> updatedDate blog"
proof (induction cs arbitrary: s lo)
  case Nil
  then show ?case by (simp add: run_def)
next
  case (Cons c cs)
  from Cons.prems(1) have 1: "sorted (lo # readings c)"
    by (simp add: clock_def sorted_append)
  from Cons.prems(1) have 2: "sorted (last (lo # readings c) # clock cs)"
    by (auto simp: clock_def sorted_append)
  from Cons.IH[OF 2 step_created[OF 1 Cons.prems(2)]]
  show ?case by (simp add: run_def)
qed

lemma blogs_ex_calls:
  "blogs (run fresh ex_calls) =
     [\<lparr>id_blog = 5000, title = ''C'', content = ''body3'', tags = [],
        createdDate = 5001, updatedDate = 5001\<rparr>,
      \<lparr>id_blog = 4000, title = ''B'', content = ''body2'', tags = [''x'', ''y''],
        createdDate = 4000, updatedDate = 4000\<rparr>]"
  by (simp add: ex_calls_def run_def fresh_def addBlog_def updateBlog_def deleteBlog_def
      getBlog_def sortBlogs_def Array_sort_def Blog_new_def Blog_update_def default_tags_def
      Let_def)

text \<open>
  C7, as the code has it. The constructor takes \<open>createdDate\<close> and \<open>updatedDate\<close> from two
  successive readings of the clock, \<open>update\<close> sets \<open>updatedDate\<close> to the reading it makes
  and leaves \<open>createdDate\<close> alone. If the readings of a sequence of calls never decrease,
  every entry of the collection it produces has \<open>createdDate \<le> updatedDate\<close>.
\<close>

theorem created_le_updated_on_monotone_clock:
  "createdDate (Blog_new i t c tg now1 now2) = now1 \<and>
   updatedDate (Blog_new i t c tg now1 now2) = now2 \<and>
   createdDate (Blog_update b t c tg now) = createdDate b \<and>
   updatedDate (Blog_update b t c tg now) = now \<and>
   (sorted (clock cs) \<longrightarrow>
      (\<forall>blog\<in>set (blogs (run fresh cs)). createdDate blog \<le> updatedDate blog))"
proof -
  have "sorted (clock cs) \<longrightarrow>
      (\<forall>blog\<in>set (blogs (run fresh cs)). createdDate blog \<le> updatedDate blog)"
  proof
    assume s: "sorted (clock cs)"
    show "\<forall>blog\<in>set (blogs (run fresh cs)). createdDate blog \<le> updatedDate blog"
    proof (cases "clock cs")
      case Nil
      then have "sorted (0 # clock cs)" by simp
      from run_created[OF this, of fresh] show ?thesis by (simp add: fresh_def)
    next
      case (Cons r rs)
      with s have "sorted (r # clock cs)" by simp
      from run_created[OF this, of fresh] show ?thesis by (simp add: fresh_def)
    qed
  qed
  then show ?thesis by (simp add: Blog_new_def Blog_update_def)
qed

theorem created_le_updated_on_monotone_clock_witness:
  "sorted (clock ex_calls) \<and>
   list_all (\<lambda>blog. createdDate blog \<le> updatedDate blog) (blogs (run fresh ex_calls))"
  using created_le_updated_on_monotone_clock[where cs = ex_calls]
  by (simp add: list_all_iff) (simp add: clock_def ex_calls_def)

text \<open>
  The sentence of the specification fails in two ways. The two readings of the
  constructor can differ, so a new entry need not have \<open>createdDate = updatedDate\<close>;
  and when the clock is set back
  between creation (at 10) and update (at 5), the entry ends with
  \<open>updatedDate < createdDate\<close>.
\<close>

theorem created_le_updated_counterexample:
  "createdDate (Blog_new 1 ''A'' ''body'' None 5 6)
     \<noteq> updatedDate (Blog_new 1 ''A'' ''body'' None 5 6) \<and>
   map createdDate (blogs (run fresh [Add ''A'' ''body'' None 10 10 10,
                                      Update 10 ''A2'' ''body2'' None 5])) = [10] \<and>
   map updatedDate (blogs (run fresh [Add ''A'' ''body'' None 10 10 10,
                                      Update 10 ''A2'' ''body2'' None 5])) = [5]"
  by (simp add: run_def fresh_def addBlog_def updateBlog_def
      getBlog_def sortBlogs_def Array_sort_def Blog_new_def Blog_update_def default_tags_def
      Let_def)

subsection \<open>Ids\<close>

lemma assigned_ids_readings: "assigned_ids s cs = id_readings cs"
  by (induction s cs rule: assigned_ids.induct) (simp_all add: addBlog_def Let_def Blog_new_def)

lemma ids_step_Add:
  "mset (map id_blog (blogs (step s (Add t c tg n0 n1 n2))))
     = add_mset n0 (mset (map id_blog (blogs s)))"
proof -
  have "mset (blogs (step s (Add t c tg n0 n1 n2)))
          = add_mset (Blog_new n0 t c tg n1 n2) (mset (blogs s))"
    by (simp add: addBlog_def Let_def sortBlogs_def)
  then have "image_mset id_blog (mset (blogs (step s (Add t c tg n0 n1 n2))))
          = add_mset n0 (image_mset id_blog (mset (blogs s)))"
    by (simp add: Blog_new_def)
  then show ?thesis by (simp only: mset_map)
qed

lemma ids_step_Update:
  "mset (map id_blog (blogs (step s (Update i t c tg now)))) = mset (map id_blog (blogs s))"
proof (cases "getBlog s i")
  case None
  then show ?thesis by (simp add: updateBlog_def)
next
  case (Some b)
  have eq: "map id_blog (mutate_first (\<lambda>blog. id_blog blog = i)
            (\<lambda>blog. Blog_update blog t c tg now) (blogs s)) = map id_blog (blogs s)"
    by (rule map_mutate_first) (simp add: Blog_update_def)
  have "mset (map id_blog (blogs (step s (Update i t c tg now))))
      = image_mset id_blog (mset (mutate_first (\<lambda>blog. id_blog blog = i)
            (\<lambda>blog. Blog_update blog t c tg now) (blogs s)))"
    using Some by (simp add: updateBlog_def Let_def sortBlogs_def)
  also have "\<dots> = mset (map id_blog (mutate_first (\<lambda>blog. id_blog blog = i)
            (\<lambda>blog. Blog_update blog t c tg now) (blogs s)))"
    by simp
  finally show ?thesis by (simp only: eq)
qed

lemma ids_step_Delete:
  "map id_blog (blogs (step s (Delete i))) = filter (\<lambda>j. j \<noteq> i) (map id_blog (blogs s))"
  by (simp add: deleteBlog_def filter_map comp_def)

text \<open>
  The invariant of a run in which \<open>Date.now()\<close> grows from one \<open>addBlog\<close> to the next:
  the ids in the array are distinct and smaller than every reading still to come.
\<close>

lemma step_ids_distinct:
  assumes "distinct (map id_blog (blogs s))"
    and "\<forall>j\<in>set (map id_blog (blogs s)). \<forall>r\<in>set (id_readings (c # cs)). j < r"
    and "sorted_wrt (<) (id_readings (c # cs))"
  shows "distinct (map id_blog (blogs (step s c))) \<and>
         (\<forall>j\<in>set (map id_blog (blogs (step s c))). \<forall>r\<in>set (id_readings cs). j < r)"
proof (cases c)
  case (Add t c' tg n0 n1 n2)
  have m: "mset (map id_blog (blogs (step s c))) = mset (n0 # map id_blog (blogs s))"
    unfolding Add using ids_step_Add[of s t c' tg n0 n1 n2] by simp
  have s: "set (map id_blog (blogs (step s c))) = insert n0 (set (map id_blog (blogs s)))"
    using mset_eq_setD[OF m] by simp
  have "n0 \<notin> set (map id_blog (blogs s))" using assms(2) Add by auto
  with assms(1) have "distinct (n0 # map id_blog (blogs s))" by simp
  then have "distinct (map id_blog (blogs (step s c)))"
    using mset_eq_imp_distinct_iff[OF m] by blast
  moreover have "\<forall>j\<in>set (map id_blog (blogs (step s c))). \<forall>r\<in>set (id_readings cs). j < r"
    unfolding s using assms(2,3) Add by auto
  ultimately show ?thesis by blast
next
  case (Update i t c' tg now)
  have m: "mset (map id_blog (blogs (step s c))) = mset (map id_blog (blogs s))"
    unfolding Update by (rule ids_step_Update)
  have "distinct (map id_blog (blogs (step s c)))"
    using mset_eq_imp_distinct_iff[OF m] assms(1) by blast
  moreover have "set (map id_blog (blogs (step s c))) = set (map id_blog (blogs s))"
    using mset_eq_setD[OF m] .
  ultimately show ?thesis using assms(2) Update by simp
next
  case (Delete i)
  have m: "map id_blog (blogs (step s c)) = filter (\<lambda>j. j \<noteq> i) (map id_blog (blogs s))"
    unfolding Delete by (rule ids_step_Delete)
  show ?thesis unfolding m using assms(1,2) Delete by auto
qed

lemma run_ids_distinct:
  "distinct (map id_blog (blogs s)) \<Longrightarrow>
   \<forall>j\<in>set (map id_blog (blogs s)). \<forall>r\<in>set (id_readings cs). j < r \<Longrightarrow>
   sorted_wrt (<) (id_readings cs) \<Longrightarrow>
   distinct (map id_blog (blogs (run s cs)))"
proof (induction cs arbitrary: s)
  case Nil
  then show ?case by (simp add: run_def)
next
  case (Cons c cs)
  from step_ids_distinct[OF Cons.prems]
  have 1: "distinct (map id_blog (blogs (step s c)))"
    and 2: "\<forall>j\<in>set (map id_blog (blogs (step s c))). \<forall>r\<in>set (id_readings cs). j < r"
    by blast+
  have 3: "sorted_wrt (<) (id_readings cs)"
    using Cons.prems(3) by (cases c) simp_all
  from Cons.IH[OF 1 2 3] show ?case by (simp add: run_def)
qed

text \<open>
  C8, as the code has it. The id an \<open>addBlog\<close> call assigns is the reading of
  \<open>Date.now()\<close> it makes. If these readings grow strictly from each \<open>addBlog\<close> to the next,
  the assigned ids grow strictly, so none is assigned twice (also not after a deletion),
  and the ids in the collection are pairwise distinct.
\<close>

theorem ids_are_clock_readings:
  "assigned_ids fresh cs = id_readings cs \<and>
   (sorted_wrt (<) (id_readings cs) \<longrightarrow>
      sorted_wrt (<) (assigned_ids fresh cs) \<and>
      distinct (assigned_ids fresh cs) \<and>
      distinct (map id_blog (blogs (run fresh cs))))"
proof -
  have "sorted_wrt (<) (id_readings cs) \<Longrightarrow> distinct (map id_blog (blogs (run fresh cs)))"
    by (rule run_ids_distinct) (simp_all add: fresh_def)
  then show ?thesis
    by (auto simp: assigned_ids_readings strict_sorted_iff)
qed

theorem ids_are_clock_readings_witness:
  "sorted_wrt (<) (id_readings ex_calls) \<and>
   assigned_ids fresh ex_calls = [1000, 4000, 5000] \<and>
   distinct (map id_blog (blogs (run fresh ex_calls)))"
  using ids_are_clock_readings[of ex_calls] by (simp add: ex_calls_def)

text \<open>
  Nothing makes the ids unique or increasing. Two \<open>addBlog\<close> calls at the reading 1000
  leave two entries with the id 1000 in the collection; on a clock set back from 2000 to
  1000 the second id is smaller than the first; and the id 2000 is assigned again after
  its entry was deleted, when the clock, which showed 2500 in between, shows 2000 again.
\<close>

theorem ids_are_clock_readings_counterexample:
  "\<not> distinct (map id_blog (blogs (run fresh
       [Add ''A'' ''a'' None 1000 1000 1000, Add ''B'' ''b'' None 1000 1000 1000]))) \<and>
   assigned_ids fresh [Add ''A'' ''a'' None 2000 2000 2000, Add ''B'' ''b'' None 1000 1000 1000]
     = [2000, 1000] \<and>
   assigned_ids fresh [Add ''A'' ''a'' None 2000 2000 2000, Update 2000 ''A'' ''a2'' None 2500,
                       Delete 2000, Add ''B'' ''b'' None 2000 2000 2000]
     = [2000, 2000]"
  by (simp add: run_def fresh_def addBlog_def updateBlog_def deleteBlog_def
      getBlog_def sortBlogs_def Array_sort_def Blog_new_def Blog_update_def default_tags_def
      Let_def)

subsection \<open>Decimal fields\<close>

lemma digit_val_digit_char: "d < 10 \<Longrightarrow> digit_val (digit_char d) = Some d"
  by (simp add: digit_val_def digit_char_def Let_def)

lemma read_nat_pad_digits:
  "read_nat k acc (pad_digits k n @ rest) = Some (acc * 10 ^ k + n mod 10 ^ k, rest)"
proof (induction k arbitrary: acc)
  case 0
  show ?case by simp
next
  case (Suc k)
  have "n mod (10 ^ k * 10) = 10 ^ k * ((n div 10 ^ k) mod 10) + n mod 10 ^ k"
    by (simp add: mod_mult2_eq)
  then show ?case
    by (simp add: digit_val_digit_char Suc.IH algebra_simps)
qed

lemma read_nat_pad_digits_exact:
  "n < 10 ^ k \<Longrightarrow> read_nat k 0 (pad_digits k n @ rest) = Some (n, rest)"
  by (simp add: read_nat_pad_digits)

lemma digit_char_not_sign: "d < 10 \<Longrightarrow> digit_char d \<noteq> CHR ''+'' \<and> digit_char d \<noteq> CHR ''-''"
proof -
  assume "d < 10"
  then have "digit_val (digit_char d) = Some d" by (rule digit_val_digit_char)
  moreover have "digit_val CHR ''+'' = None" "digit_val CHR ''-'' = None"
    by (simp_all add: digit_val_def)
  ultimately show ?thesis by auto
qed

lemma read_year_year_string:
  assumes "- 999999 \<le> y" "y \<le> 999999"
  shows "read_year (year_string y @ rest) = Some (y, rest)"
proof (cases "0 \<le> y \<and> y \<le> 9999")
  case True
  then have n: "nat y < 10 ^ 4" by (simp add: nat_less_iff)
  have "pad_digits (Suc 3) (nat y)
          = digit_char ((nat y div 10 ^ 3) mod 10) # pad_digits 3 (nat y)"
    by (rule pad_digits.simps)
  moreover have "Suc 3 = 4" by simp
  ultimately have p: "pad_digits 4 (nat y)
          = digit_char ((nat y div 10 ^ 3) mod 10) # pad_digits 3 (nat y)"
    by (simp only:)
  have ns: "digit_char ((nat y div 10 ^ 3) mod 10) \<noteq> CHR ''+''"
       "digit_char ((nat y div 10 ^ 3) mod 10) \<noteq> CHR ''-''"
    using digit_char_not_sign[of "(nat y div 10 ^ 3) mod 10"] by simp_all
  have "read_year (pad_digits 4 (nat y) @ rest) =
        (case read_nat 4 0 (pad_digits 4 (nat y) @ rest) of None \<Rightarrow> None
         | Some (y, r) \<Rightarrow> Some (int y, r))"
    unfolding p using ns by simp
  also have "\<dots> = Some (y, rest)"
    using True by (simp add: read_nat_pad_digits_exact[OF n])
  finally show ?thesis using True by (simp add: year_string_def)
next
  case False
  show ?thesis
  proof (cases "y < 0")
    case True
    then have n: "nat (- y) < 10 ^ 6" and z: "nat (- y) \<noteq> 0"
      using assms by (simp_all add: nat_less_iff)
    from True False z show ?thesis
      by (simp add: year_string_def read_nat_pad_digits_exact[OF n])
  next
    case neg: False
    then have n: "nat y < 10 ^ 6" using assms by (simp add: nat_less_iff)
    from neg False show ?thesis
      by (simp add: year_string_def read_nat_pad_digits_exact[OF n])
  qed
qed

subsection \<open>Years\<close>

lemma div_bounds:
  fixes x k :: int
  assumes "0 < k"
  shows "k * (x div k) \<le> x" and "x - (k - 1) \<le> k * (x div k)"
  using assms pos_mod_bound[of k x] pos_mod_sign[of k x] mult_div_mod_eq[of k x] by linarith+

lemma DayFromYear_upper: "400 * DayFromYear y \<le> 146097 * (y - 1970) + 589"
proof -
  have a: "4 * ((y - 1969) div 4) \<le> y - 1969" by (rule div_bounds) simp
  have b: "y - 1901 - 99 \<le> 100 * ((y - 1901) div 100)"
    using div_bounds(2)[of 100 "y - 1901"] by simp
  have c: "400 * ((y - 1601) div 400) \<le> y - 1601" by (rule div_bounds) simp
  have "\<And>a b c ::int. 4 * a \<le> y - 1969 \<Longrightarrow> y - 1901 - 99 \<le> 100 * b \<Longrightarrow> 400 * c \<le> y - 1601
    \<Longrightarrow> 400 * (365 * (y - 1970) + a - b + c) \<le> 146097 * (y - 1970) + 589"
    by (simp add: algebra_simps)
  from this[OF a b c] show ?thesis unfolding DayFromYear_def .
qed

lemma DayFromYear_lower: "146097 * (y - 1970) - 506 \<le> 400 * DayFromYear y"
proof -
  have a: "y - 1969 - 3 \<le> 4 * ((y - 1969) div 4)" using div_bounds(2)[of 4 "y - 1969"] by simp
  have b: "100 * ((y - 1901) div 100) \<le> y - 1901" by (rule div_bounds) simp
  have c: "y - 1601 - 399 \<le> 400 * ((y - 1601) div 400)"
    using div_bounds(2)[of 400 "y - 1601"] by simp
  have "\<And>a b c ::int. y - 1969 - 3 \<le> 4 * a \<Longrightarrow> 100 * b \<le> y - 1901 \<Longrightarrow> y - 1601 - 399 \<le> 400 * c
    \<Longrightarrow> 146097 * (y - 1970) - 506 \<le> 400 * (365 * (y - 1970) + a - b + c)"
    by (simp add: algebra_simps)
  from this[OF a b c] show ?thesis unfolding DayFromYear_def .
qed

lemma YearFromTime_lower: "DayFromYear (YearFromTime t) \<le> Day t"
proof -
  define d where "d = Day t"
  define e where "e = 1970 + (400 * d) div 146097"
  have "146097 * ((400 * d) div 146097) \<le> 400 * d" by (rule div_bounds) simp
  then have "146097 * (e - 1970) \<le> 400 * d" unfolding e_def by simp
  with DayFromYear_upper[of "e - 1"] have "DayFromYear (e - 1) \<le> d"
    by (simp add: algebra_simps)
  then show ?thesis unfolding YearFromTime_def Let_def d_def[symmetric] e_def[symmetric] by simp
qed

lemma YearFromTime_upper: "Day t < DayFromYear (YearFromTime t + 1)"
proof -
  define d where "d = Day t"
  define e where "e = 1970 + (400 * d) div 146097"
  have "400 * d - 146096 \<le> 146097 * ((400 * d) div 146097)"
    using div_bounds(2)[of 146097 "400 * d"] by simp
  then have "400 * d < 146097 * (e - 1970) + 146097" unfolding e_def by simp
  with DayFromYear_lower[of "e + 2"] have "d < DayFromYear (e + 1 + 1)"
    by (simp add: algebra_simps)
  then show ?thesis unfolding YearFromTime_def Let_def d_def[symmetric] e_def[symmetric] by auto
qed

lemma div_succ:
  fixes x k :: int
  assumes "0 < k"
  shows "(x + 1) div k = x div k + (if (x + 1) mod k = 0 then 1 else 0)"
proof (cases "x mod k + 1 < k")
  case True
  have nn: "0 \<le> x mod k + 1" using pos_mod_sign[of k x] assms by simp
  have "x + 1 = k * (x div k) + (x mod k + 1)" by simp
  from int_div_pos_eq[OF this nn True] int_mod_pos_eq[OF this nn True]
  have "(x + 1) div k = x div k" "(x + 1) mod k = x mod k + 1" by simp_all
  moreover have "x mod k + 1 \<noteq> 0" using pos_mod_sign[of k x] assms by linarith
  ultimately show ?thesis by simp
next
  case False
  then have r: "x mod k = k - 1" using pos_mod_bound[of k x] assms by linarith
  have "x + 1 = k * (x div k + 1) + 0" using mult_div_mod_eq[of k x] r by (simp add: algebra_simps)
  from int_div_pos_eq[OF this] int_mod_pos_eq[OF this] assms
  show ?thesis by simp
qed

lemma mod4_shift: "(y - 1968) mod 4 = y mod (4::int)"
  using mod_mult_self2[of y 4 "-492"] by simp

lemma mod100_shift: "(y - 1900) mod 100 = y mod (100::int)"
  using mod_mult_self2[of y 100 "-19"] by simp

lemma mod400_shift: "(y - 1600) mod 400 = y mod (400::int)"
  using mod_mult_self2[of y 400 "-4"] by simp

lemma mod100_mod4: "(y::int) mod 100 = 0 \<Longrightarrow> y mod 4 = 0"
proof -
  assume "y mod 100 = 0"
  then have "100 dvd y" by (simp add: dvd_eq_mod_eq_0)
  moreover have "(4::int) dvd 100" by simp
  ultimately have "4 dvd y" by (rule dvd_trans[rotated])
  then show ?thesis by simp
qed

lemma mod400_mod100: "(y::int) mod 400 = 0 \<Longrightarrow> y mod 100 = 0"
proof -
  assume "y mod 400 = 0"
  then have "400 dvd y" by (simp add: dvd_eq_mod_eq_0)
  moreover have "(100::int) dvd 400" by simp
  ultimately have "100 dvd y" by (rule dvd_trans[rotated])
  then show ?thesis by simp
qed

lemma DayFromYear_step: "DayFromYear (y + 1) = DayFromYear y + DaysInYear y"
proof -
  have 1: "(y + 1 - 1969) div 4 = (y - 1969) div 4 + (if y mod 4 = 0 then 1 else 0)"
    using div_succ[of 4 "y - 1969"] mod4_shift[of y] by (simp add: algebra_simps)
  have 2: "(y + 1 - 1901) div 100 = (y - 1901) div 100 + (if y mod 100 = 0 then 1 else 0)"
    using div_succ[of 100 "y - 1901"] mod100_shift[of y] by (simp add: algebra_simps)
  have 3: "(y + 1 - 1601) div 400 = (y - 1601) div 400 + (if y mod 400 = 0 then 1 else 0)"
    using div_succ[of 400 "y - 1601"] mod400_shift[of y] by (simp add: algebra_simps)
  show ?thesis
    unfolding DayFromYear_def DaysInYear_def 1 2 3
    using mod100_mod4[of y] mod400_mod100[of y] by auto
qed

text \<open>
  \<open>YearFromTime\<close> is the year ECMAScript specifies: the largest one that starts no
  later than \<open>t\<close>.
\<close>

lemma DayFromYear_strict_mono: "y < y' \<Longrightarrow> DayFromYear y < DayFromYear y'"
proof -
  assume "y < y'"
  then have "146097 * (y - 1970) + 589 < 146097 * (y' - 1970) - 506" by simp
  with DayFromYear_upper[of y] DayFromYear_lower[of y']
  have "400 * DayFromYear y < 400 * DayFromYear y'" by linarith
  then show ?thesis by simp
qed

lemma YearFromTime_largest: "msPerDay * DayFromYear y \<le> t \<longleftrightarrow> y \<le> YearFromTime t"
proof -
  have d: "msPerDay * DayFromYear y \<le> t \<longleftrightarrow> DayFromYear y \<le> Day t"
  proof
    assume "msPerDay * DayFromYear y \<le> t"
    then have "(msPerDay * DayFromYear y) div msPerDay \<le> t div msPerDay"
      by (rule zdiv_mono1) (simp add: msPerDay_def)
    then show "DayFromYear y \<le> Day t" by (simp add: Day_def msPerDay_def)
  next
    assume "DayFromYear y \<le> Day t"
    then have "msPerDay * DayFromYear y \<le> msPerDay * (t div msPerDay)"
      by (simp add: Day_def msPerDay_def)
    also have "\<dots> \<le> t" by (rule div_bounds) (simp add: msPerDay_def)
    finally show "msPerDay * DayFromYear y \<le> t" .
  qed
  show ?thesis unfolding d
  proof
    assume a: "DayFromYear y \<le> Day t"
    show "y \<le> YearFromTime t"
    proof (rule ccontr)
      assume "\<not> y \<le> YearFromTime t"
      then have "YearFromTime t + 1 \<le> y" by simp
      then have "DayFromYear (YearFromTime t + 1) \<le> DayFromYear y"
        using DayFromYear_strict_mono[of "YearFromTime t + 1" y] by (cases "YearFromTime t + 1 = y") auto
      with YearFromTime_upper[of t] a show False by simp
    qed
  next
    assume "y \<le> YearFromTime t"
    then have "DayFromYear y \<le> DayFromYear (YearFromTime t)"
      using DayFromYear_strict_mono[of y "YearFromTime t"] by (cases "y = YearFromTime t") auto
    with YearFromTime_lower[of t] show "DayFromYear y \<le> Day t" by simp
  qed
qed

lemma DayWithinYear_range:
  "0 \<le> DayWithinYear t" "DayWithinYear t < 365 + InLeapYear t"
proof -
  show "0 \<le> DayWithinYear t" using YearFromTime_lower[of t] by (simp add: DayWithinYear_def)
  have "DaysInYear (YearFromTime t) = 365 + InLeapYear t"
    by (simp add: InLeapYear_def DaysInYear_def)
  with YearFromTime_upper[of t] DayFromYear_step[of "YearFromTime t"]
  show "DayWithinYear t < 365 + InLeapYear t" by (simp add: DayWithinYear_def)
qed

lemma InLeapYear_cases: "InLeapYear t = 0 \<or> InLeapYear t = 1"
  by (simp add: InLeapYear_def)

lemma month_range_aux:
  fixes dwy leap :: int
  assumes "0 \<le> dwy" "dwy < 365 + leap" "leap = 0 \<or> leap = 1"
  defines "m \<equiv> (if dwy < 31 then 0 else if dwy < 59 + leap then 1 else if dwy < 90 + leap then 2
      else if dwy < 120 + leap then 3 else if dwy < 151 + leap then 4
      else if dwy < 181 + leap then 5 else if dwy < 212 + leap then 6
      else if dwy < 243 + leap then 7 else if dwy < 273 + leap then 8
      else if dwy < 304 + leap then 9 else if dwy < 334 + leap then 10 else (11::int))"
  shows "0 \<le> m \<and> m \<le> 11 \<and> month_start leap m \<le> dwy \<and> dwy < month_start leap (m + 1)"
  using assms(1-3) unfolding m_def month_start_def by (auto split: if_splits)

lemma MonthFromTime_range:
  "0 \<le> MonthFromTime t" "MonthFromTime t \<le> 11"
  "month_start (InLeapYear t) (MonthFromTime t) \<le> DayWithinYear t"
  "DayWithinYear t < month_start (InLeapYear t) (MonthFromTime t + 1)"
  using month_range_aux[OF DayWithinYear_range InLeapYear_cases, of t]
  unfolding MonthFromTime_def Let_def by blast+

lemma DateFromTime_range:
  "1 \<le> DateFromTime t"
  "DateFromTime t \<le> month_start (InLeapYear t) (MonthFromTime t + 1)
                       - month_start (InLeapYear t) (MonthFromTime t)"
  using MonthFromTime_range(3,4)[of t] by (simp_all add: DateFromTime_def)

lemma month_length_le_31:
  "leap = 0 \<or> leap = 1 \<Longrightarrow> 0 \<le> m \<Longrightarrow> m \<le> 11 \<Longrightarrow> month_start leap (m + 1) - month_start leap m \<le> 31"
  unfolding month_start_def by (auto split: if_splits)

lemma DateFromTime_le_31: "DateFromTime t \<le> 31"
  using DateFromTime_range(2)[of t]
    month_length_le_31[OF InLeapYear_cases MonthFromTime_range(1,2), of t t] by simp

subsection \<open>\<open>Date.parse\<close> reads what \<open>toISOString\<close> writes\<close>

lemma YearFromTime_bounds:
  assumes "valid_time t"
  shows "- 999999 \<le> YearFromTime t" "YearFromTime t \<le> 999999"
proof -
  have d1: "- 100000000 \<le> Day t"
  proof -
    have "(- 8640000000000000) div msPerDay \<le> t div msPerDay"
      by (rule zdiv_mono1) (use assms in \<open>simp_all add: valid_time_def msPerDay_def\<close>)
    then show ?thesis by (simp add: Day_def msPerDay_def)
  qed
  have d2: "Day t \<le> 100000000"
  proof -
    have "t div msPerDay \<le> 8640000000000000 div msPerDay"
      by (rule zdiv_mono1) (use assms in \<open>simp_all add: valid_time_def msPerDay_def\<close>)
    then show ?thesis by (simp add: Day_def msPerDay_def)
  qed
  from YearFromTime_upper[of t] d1 DayFromYear_upper[of "YearFromTime t + 1"]
  show "- 999999 \<le> YearFromTime t" by (simp add: algebra_simps)
  from YearFromTime_lower[of t] d2 DayFromYear_lower[of "YearFromTime t"]
  show "YearFromTime t \<le> 999999" by (simp add: algebra_simps)
qed

lemma time_fields_range:
  "0 \<le> HourFromTime t" "HourFromTime t < 24"
  "0 \<le> MinFromTime t" "MinFromTime t < 60"
  "0 \<le> SecFromTime t" "SecFromTime t < 60"
  "0 \<le> msFromTime t" "msFromTime t < 1000"
  by (simp_all add: HourFromTime_def MinFromTime_def SecFromTime_def msFromTime_def msPerSecond_def)

lemma MakeTime_fields:
  "MakeTime (HourFromTime t) (MinFromTime t) (SecFromTime t) (msFromTime t) = TimeWithinDay t"
proof -
  have 1: "t mod 60000 = 1000 * ((t div 1000) mod 60) + t mod 1000"
    using zmod_zmult2_eq[of 60 t 1000] by simp
  have 2: "t mod 3600000 = 60000 * ((t div 60000) mod 60) + t mod 60000"
    using zmod_zmult2_eq[of 60 t 60000] by simp
  have 3: "t mod 86400000 = 3600000 * ((t div 3600000) mod 24) + t mod 3600000"
    using zmod_zmult2_eq[of 24 t 3600000] by simp
  have "\<And>r1 r2 r3 r4 H M S :: int. r2 = 1000 * S + r1 \<Longrightarrow> r3 = 60000 * M + r2 \<Longrightarrow>
          r4 = 3600000 * H + r3 \<Longrightarrow> H * 3600000 + M * 60000 + S * 1000 + r1 = r4"
    by simp
  from this[OF 1 2 3] show ?thesis
    unfolding MakeTime_def HourFromTime_def MinFromTime_def SecFromTime_def msFromTime_def
      TimeWithinDay_def msPerDay_def msPerHour_def msPerMinute_def msPerSecond_def .
qed

lemma MakeDay_fields:
  "MakeDay (YearFromTime t) (MonthFromTime t) (DateFromTime t) = Day t"
proof -
  have "MonthFromTime t div 12 = 0" "MonthFromTime t mod 12 = MonthFromTime t"
    using MonthFromTime_range(1,2)[of t] by simp_all
  then show ?thesis
    by (simp add: MakeDay_def Let_def DateFromTime_def DayWithinYear_def InLeapYear_def)
qed

lemma MakeDate_fields:
  "MakeDate (MakeDay (YearFromTime t) (MonthFromTime t) (DateFromTime t))
            (MakeTime (HourFromTime t) (MinFromTime t) (SecFromTime t) (msFromTime t)) = t"
  by (simp add: MakeDay_fields MakeTime_fields MakeDate_def Day_def TimeWithinDay_def)

lemma expect_Cons: "expect c (c # s) = Some s"
  by simp

lemma read_fields_step:
  "n < 10 ^ k \<Longrightarrow>
   read_fields ((k, sep) # fs) (pad_digits k n @ sep # r) =
     (case read_fields fs r of None \<Rightarrow> None | Some (ns, r'') \<Rightarrow> Some (n # ns, r''))"
  by (simp add: read_nat_pad_digits_exact)

lemma read_fields_iso:
  assumes "mo < 10 ^ 2" "d < 10 ^ 2" "h < 10 ^ 2" "mi < 10 ^ 2" "sec < 10 ^ 2" "milli < 10 ^ 3"
  shows "read_fields [(2, CHR ''-''), (2, CHR ''T''), (2, CHR '':''), (2, CHR '':''),
                      (2, CHR ''.''), (3, CHR ''Z'')]
           (pad_digits 2 mo @ ''-'' @ pad_digits 2 d @ ''T'' @ pad_digits 2 h @ '':'' @
            pad_digits 2 mi @ '':'' @ pad_digits 2 sec @ ''.'' @ pad_digits 3 milli @ ''Z'')
         = Some ([mo, d, h, mi, sec, milli], [])"
  by (simp only: append_Cons append_Nil read_fields_step[OF assms(1)] read_fields_step[OF assms(2)]
      read_fields_step[OF assms(3)] read_fields_step[OF assms(4)] read_fields_step[OF assms(5)]
      read_fields_step[OF assms(6)] read_fields.simps(1) option.case prod.case)

lemma date_of_fields_time:
  assumes "valid_time t"
  shows "date_of_fields (YearFromTime t)
           [nat (MonthFromTime t + 1), nat (DateFromTime t), nat (HourFromTime t),
            nat (MinFromTime t), nat (SecFromTime t), nat (msFromTime t)] = Some t"
proof -
  define mo where "mo = nat (MonthFromTime t + 1)"
  define d where "d = nat (DateFromTime t)"
  define h where "h = nat (HourFromTime t)"
  define mi where "mi = nat (MinFromTime t)"
  define sec where "sec = nat (SecFromTime t)"
  define milli where "milli = nat (msFromTime t)"
  have m: "0 \<le> MonthFromTime t" "MonthFromTime t \<le> 11" by (rule MonthFromTime_range)+
  have dt: "1 \<le> DateFromTime t" by (rule DateFromTime_range)
  have i1: "int mo = MonthFromTime t + 1"
    unfolding mo_def using m(1) by simp
  have e: "MonthFromTime t + 1 - 1 = MonthFromTime t" by simp
  have i2: "int d = DateFromTime t" unfolding d_def using dt by simp
  have i3: "int h = HourFromTime t" unfolding h_def using time_fields_range(1)[of t] by simp
  have i4: "int mi = MinFromTime t" unfolding mi_def using time_fields_range(3)[of t] by simp
  have i5: "int sec = SecFromTime t" unfolding sec_def using time_fields_range(5)[of t] by simp
  have i6: "int milli = msFromTime t" unfolding milli_def using time_fields_range(7)[of t] by simp
  have c1: "1 \<le> mo" "mo \<le> 12" unfolding mo_def using m by linarith+
  have c2: "1 \<le> d" unfolding d_def using dt by linarith
  have c3: "h \<le> 23" unfolding h_def using time_fields_range(2)[of t] by linarith
  have c4: "mi \<le> 59" unfolding mi_def using time_fields_range(4)[of t] by linarith
  have c5: "sec \<le> 59" unfolding sec_def using time_fields_range(6)[of t] by linarith
  have c6: "int d \<le> month_start (if DaysInYear (YearFromTime t) = 366 then 1 else 0) (int mo)
                  - month_start (if DaysInYear (YearFromTime t) = 366 then 1 else 0) (int mo - 1)"
    unfolding i1 i2 e InLeapYear_def[symmetric] by (rule DateFromTime_range)
  have tv: "MakeDate (MakeDay (YearFromTime t) (int mo - 1) (int d))
                     (MakeTime (int h) (int mi) (int sec) (int milli)) = t"
    unfolding i1 i2 i3 i4 i5 i6 e by (rule MakeDate_fields)
  have "date_of_fields (YearFromTime t) [mo, d, h, mi, sec, milli] = Some t"
    by (simp only: date_of_fields.simps c1 c2 c3 c4 c5 c6 tv Let_def assms simp_thms if_True)
  then show ?thesis unfolding mo_def d_def h_def mi_def sec_def milli_def .
qed

lemma Date_parse_toISOString: "valid_time t \<Longrightarrow> Date_parse (toISOString t) = Some t"
proof -
  assume v: "valid_time t"
  define rest where "rest =
     pad_digits 2 (nat (MonthFromTime t + 1)) @ ''-'' @
     pad_digits 2 (nat (DateFromTime t)) @ ''T'' @ pad_digits 2 (nat (HourFromTime t)) @ '':'' @
     pad_digits 2 (nat (MinFromTime t)) @ '':'' @ pad_digits 2 (nat (SecFromTime t)) @ ''.'' @
     pad_digits 3 (nat (msFromTime t)) @ ''Z''"
  have s: "toISOString t = year_string (YearFromTime t) @ CHR ''-'' # rest"
    by (simp only: toISOString_def rest_def append_Cons append_Nil)
  have y: "read_year (year_string (YearFromTime t) @ CHR ''-'' # rest)
            = Some (YearFromTime t, CHR ''-'' # rest)"
    by (rule read_year_year_string) (rule YearFromTime_bounds[OF v])+
  have b: "nat (MonthFromTime t + 1) < 10 ^ 2" "nat (DateFromTime t) < 10 ^ 2"
      "nat (HourFromTime t) < 10 ^ 2" "nat (MinFromTime t) < 10 ^ 2"
      "nat (SecFromTime t) < 10 ^ 2" "nat (msFromTime t) < 10 ^ 3"
  proof -
    have p: "(10::nat) ^ 2 = 100" "(10::nat) ^ 3 = 1000" by simp_all
    show "nat (MonthFromTime t + 1) < 10 ^ 2" unfolding p
      using MonthFromTime_range(2)[of t] by linarith
    show "nat (DateFromTime t) < 10 ^ 2" unfolding p
      using DateFromTime_le_31[of t] by linarith
    show "nat (HourFromTime t) < 10 ^ 2" unfolding p
      using time_fields_range(2)[of t] by linarith
    show "nat (MinFromTime t) < 10 ^ 2" unfolding p
      using time_fields_range(4)[of t] by linarith
    show "nat (SecFromTime t) < 10 ^ 2" unfolding p
      using time_fields_range(6)[of t] by linarith
    show "nat (msFromTime t) < 10 ^ 3" unfolding p
      using time_fields_range(8)[of t] by linarith
  qed
  have f: "read_fields [(2, CHR ''-''), (2, CHR ''T''), (2, CHR '':''), (2, CHR '':''),
                      (2, CHR ''.''), (3, CHR ''Z'')] rest
         = Some ([nat (MonthFromTime t + 1), nat (DateFromTime t), nat (HourFromTime t),
            nat (MinFromTime t), nat (SecFromTime t), nat (msFromTime t)], [])"
    unfolding rest_def by (rule read_fields_iso[OF b])
  show ?thesis
    unfolding Date_parse_def s y
    by (simp only: option.case prod.case expect.simps if_True f date_of_fields_time[OF v] simp_thms)
qed

lemma Date_parse_example: "Date_parse ''2025-11-02T14:17:25.123Z'' = Some 1762093045123"
  by code_simp

lemma pad_digits_numeral:
  "pad_digits (numeral k) n
     = digit_char ((n div 10 ^ pred_numeral k) mod 10) # pad_digits (pred_numeral k) n"
proof -
  have "pad_digits (Suc (pred_numeral k)) n
     = digit_char ((n div 10 ^ pred_numeral k) mod 10) # pad_digits (pred_numeral k) n"
    by (rule pad_digits.simps)
  moreover have "Suc (pred_numeral k) = numeral k" by (simp add: numeral_eq_Suc)
  ultimately show ?thesis by (simp only:)
qed

lemma pad_digits_1: "pad_digits 1 n = [digit_char (n mod 10)]"
  using pad_digits.simps(2)[of 0 n] by simp

lemma digit_chars:
  "digit_char 0 = CHR ''0''" "digit_char 1 = CHR ''1''" "digit_char 2 = CHR ''2''"
  "digit_char 3 = CHR ''3''" "digit_char 4 = CHR ''4''" "digit_char 5 = CHR ''5''"
  "digit_char 6 = CHR ''6''" "digit_char 7 = CHR ''7''" "digit_char 8 = CHR ''8''"
  "digit_char 9 = CHR ''9''" "digit_char (Suc 0) = CHR ''1''"
  by code_simp+

lemma toISOString_example: "toISOString 1762093045123 = ''2025-11-02T14:17:25.123Z''"
  by (simp add: toISOString_def YearFromTime_def Day_def msPerDay_def DayFromYear_def Let_def
      MonthFromTime_def DateFromTime_def DayWithinYear_def InLeapYear_def DaysInYear_def
      month_start_def HourFromTime_def MinFromTime_def SecFromTime_def msFromTime_def
      msPerHour_def msPerMinute_def msPerSecond_def year_string_def
      pad_digits_numeral pad_digits_1 digit_chars)

lemma toISOString_before_epoch: "toISOString (- 1) = ''1969-12-31T23:59:59.999Z''"
  by (simp add: toISOString_def YearFromTime_def Day_def msPerDay_def DayFromYear_def Let_def
      MonthFromTime_def DateFromTime_def DayWithinYear_def InLeapYear_def DaysInYear_def
      month_start_def HourFromTime_def MinFromTime_def SecFromTime_def msFromTime_def
      msPerHour_def msPerMinute_def msPerSecond_def year_string_def
      pad_digits_numeral pad_digits_1 digit_chars)

subsection \<open>Persistence\<close>

lemma string_elems_map: "string_elems (map JString xs) = Some xs"
  by (induction xs) simp_all

lemma get_property_Blog_toJSON:
  "get_property [(''id'', a), (''title'', b), (''content'', c), (''tags'', d),
                 (''createdDate'', e), (''updatedDate'', f)] ''id'' = Some a"
  "get_property [(''id'', a), (''title'', b), (''content'', c), (''tags'', d),
                 (''createdDate'', e), (''updatedDate'', f)] ''title'' = Some b"
  "get_property [(''id'', a), (''title'', b), (''content'', c), (''tags'', d),
                 (''createdDate'', e), (''updatedDate'', f)] ''content'' = Some c"
  "get_property [(''id'', a), (''title'', b), (''content'', c), (''tags'', d),
                 (''createdDate'', e), (''updatedDate'', f)] ''tags'' = Some d"
  "get_property [(''id'', a), (''title'', b), (''content'', c), (''tags'', d),
                 (''createdDate'', e), (''updatedDate'', f)] ''createdDate'' = Some e"
  "get_property [(''id'', a), (''title'', b), (''content'', c), (''tags'', d),
                 (''createdDate'', e), (''updatedDate'', f)] ''updatedDate'' = Some f"
  by (simp_all add: get_property_def)

lemma reviveBlog_toJSON:
  assumes "valid_time (createdDate b)" "valid_time (updatedDate b)"
  shows "reviveBlog now (Blog_toJSON b) = Inr b"
  by (simp add: Blog_toJSON_def reviveObject_def get_property_Blog_toJSON string_elems_map
      Date_parse_toISOString[OF assms(1)] Date_parse_toISOString[OF assms(2)]
      Blog_new_def default_tags_def)

lemma reviveAll_toJSON:
  "\<forall>b\<in>set bs. valid_time (createdDate b) \<and> valid_time (updatedDate b) \<Longrightarrow>
   reviveAll now (map Blog_toJSON bs) = Inr bs"
  by (induction bs) (simp_all add: reviveBlog_toJSON)

lemma load_after_save:
  "\<forall>b\<in>set (blogs s). valid_time (createdDate b) \<and> valid_time (updatedDate b) \<Longrightarrow>
   loadFromLocalStorage \<lparr>blogs = bs0, localStorage = localStorage (saveToLocalStorage s)\<rparr> now
     = Inr \<lparr>blogs = blogs s, localStorage = localStorage (saveToLocalStorage s)\<rparr>"
  by (simp add: loadFromLocalStorage_def saveToLocalStorage_def getItem_def setItem_def
      JSON_stringify_def reviveAll_toJSON)

text \<open>
  C2. \<open>saveToLocalStorage\<close> followed by the construction of a new manager on the same
  store (which runs \<open>loadFromLocalStorage\<close>) gives a manager with the same array: the same
  entries in the same order, each with the id, title, content, tags, \<open>createdDate\<close> and
  \<open>updatedDate\<close> it had, the dates to the millisecond. The entries' dates are time values
  a \<open>Date\<close> can hold; whatever the clock shows while the entries are rebuilt (\<open>now\<close>) is
  overwritten.
\<close>

theorem restore_after_persist:
  "\<forall>b\<in>set (blogs s). valid_time (createdDate b) \<and> valid_time (updatedDate b) \<Longrightarrow>
   BlogManager_new (localStorage (saveToLocalStorage s)) now
     = Inr \<lparr>blogs = blogs s, localStorage = localStorage (saveToLocalStorage s)\<rparr>"
  unfolding BlogManager_new_def by (rule load_after_save)

theorem restore_after_persist_witness:
  "valid_time 1000 \<and> valid_time 2000 \<and>
   BlogManager_new (localStorage (saveToLocalStorage ex_state)) 9999
     = Inr \<lparr>blogs = [ex_B, ex_A], localStorage = localStorage (saveToLocalStorage ex_state)\<rparr>"
  using restore_after_persist[of ex_state 9999] by (simp add: ex_state_def ex_A_def ex_B_def valid_time_def)

lemma stored_example:
  "getItem (localStorage (saveToLocalStorage ex_state)) ''blogs'' = Some (JArray
     [JObject [(''id'', JNumber 2000), (''title'', JString ''B''), (''content'', JString ''body2''),
               (''tags'', JArray [JString ''x'', JString ''y'']),
               (''createdDate'', JString ''1970-01-01T00:00:02.000Z''),
               (''updatedDate'', JString ''1970-01-01T00:00:02.000Z'')],
      JObject [(''id'', JNumber 1000), (''title'', JString ''A''), (''content'', JString ''body1''),
               (''tags'', JArray [JString ''x'']),
               (''createdDate'', JString ''1970-01-01T00:00:01.000Z''),
               (''updatedDate'', JString ''1970-01-01T00:00:01.000Z'')]])"
  by (simp add: saveToLocalStorage_def getItem_def setItem_def JSON_stringify_def Blog_toJSON_def
      ex_state_def ex_A_def ex_B_def
      toISOString_def YearFromTime_def Day_def msPerDay_def DayFromYear_def Let_def
      MonthFromTime_def DateFromTime_def DayWithinYear_def InLeapYear_def DaysInYear_def
      month_start_def HourFromTime_def MinFromTime_def SecFromTime_def msFromTime_def
      msPerHour_def msPerMinute_def msPerSecond_def year_string_def
      pad_digits_numeral pad_digits_1 digit_chars)

subsection \<open>Reloading\<close>

lemma stored_in_sync_save: "stored_in_sync (saveToLocalStorage s)"
  by (simp add: stored_in_sync_def saveToLocalStorage_def getItem_def setItem_def)

lemma step_in_sync: "stored_in_sync s \<Longrightarrow> stored_in_sync (step s c)"
proof (cases c)
  case (Add t c' tg n0 n1 n2)
  then show ?thesis by (simp add: addBlog_def Let_def stored_in_sync_save)
next
  case (Update i t c' tg now)
  assume "stored_in_sync s"
  with Update show ?thesis
    by (cases "getBlog s i") (simp_all add: updateBlog_def Let_def stored_in_sync_save)
next
  case (Delete i)
  then show ?thesis by (simp add: deleteBlog_def stored_in_sync_save)
qed

lemma run_in_sync: "stored_in_sync s \<Longrightarrow> stored_in_sync (run s cs)"
  unfolding run_def by (induction cs arbitrary: s) (simp_all add: step_in_sync)

lemma step_valid_dates:
  assumes "list_all valid_time (readings c)" "valid_dates (blogs s)"
  shows "valid_dates (blogs (step s c))"
proof (cases c)
  case (Add t c' tg n0 n1 n2)
  with assms show ?thesis
    unfolding valid_dates_def list_all_iff Add blogs_step_Add by (auto simp: Blog_new_def)
next
  case (Update i t c' tg now)
  with assms show ?thesis
    unfolding valid_dates_def list_all_iff
    using blogs_step_Update[of s i t c' tg now] by (fastforce simp: Blog_update_def)
next
  case (Delete i)
  with assms show ?thesis
    unfolding valid_dates_def list_all_iff using blogs_step_Delete[of s i] by auto
qed

lemma run_valid_dates:
  "list_all valid_time (clock cs) \<Longrightarrow> valid_dates (blogs s) \<Longrightarrow> valid_dates (blogs (run s cs))"
  unfolding run_def clock_def
  by (induction cs arbitrary: s) (simp_all add: step_valid_dates)

lemma load_in_sync:
  assumes "stored_in_sync s" "valid_dates (blogs s)"
  shows "loadFromLocalStorage \<lparr>blogs = [], localStorage = localStorage s\<rparr> now = Inr s"
proof (cases "getItem (localStorage s) ''blogs''")
  case None
  with assms(1) have "blogs s = []" by (simp add: stored_in_sync_def)
  with None show ?thesis by (simp add: loadFromLocalStorage_def)
next
  case (Some j)
  with assms(1) have j: "j = JArray (map Blog_toJSON (blogs s))"
    by (simp add: stored_in_sync_def JSON_stringify_def)
  have "reviveAll now (map Blog_toJSON (blogs s)) = Inr (blogs s)"
    using assms(2) by (intro reviveAll_toJSON) (simp add: valid_dates_def list_all_iff)
  with Some j show ?thesis by (simp add: loadFromLocalStorage_def)
qed

text \<open>
  A page reload in the middle of a run changes nothing: the manager constructed on the
  store that a sequence of calls has left is the state that the sequence has left (the
  clock readings being time values a \<open>Date\<close> can hold). So the managers that this program
  can start with are the states \<open>run fresh cs\<close>.
\<close>

lemma restore_of_run:
  "list_all valid_time (clock cs) \<Longrightarrow>
   BlogManager_new (localStorage (run fresh cs)) now = Inr (run fresh cs)"
  unfolding BlogManager_new_def
  by (intro load_in_sync run_in_sync run_valid_dates)
     (simp_all add: fresh_def stored_in_sync_def valid_dates_def getItem_def empty_storage_def)

lemma restored_manager_sorted:
  assumes "list_all valid_time (clock cs)"
    and "BlogManager_new (localStorage (run fresh cs)) now = Inr s"
  shows "sorted_desc (blogs (run s cs'))"
proof -
  from restore_of_run[OF assms(1), of now] assms(2) have s: "s = run fresh cs" by simp
  have "sorted_desc (blogs fresh)" by (simp add: fresh_def sorted_desc_def)
  then have "sorted_desc (blogs (run fresh cs))" by (rule run_sorted)
  then show ?thesis unfolding s by (rule run_sorted)
qed


end
